theory Spec2Isabelle
  imports Main "HOL-Library.Word" "HOL-Library.AList"
begin

section \<open>Data model of the keyspace event watcher\<close>

text \<open>
  The embedding follows \<^verbatim>\<open>go/vt/discovery/keyspace_events.go\<close>. Go structs are records,
  Go enumerations are datatypes, nullable pointers are \<open>option\<close>s, \<^verbatim>\<open>int64\<close> is
  \<open>64 word\<close> compared as a signed number (\<open><s\<close>), and the mutex-protected methods are
  functions that take the state and return the new one. A method that broadcasts returns the
  list of events it handed to \<^verbatim>\<open>kew.broadcast\<close>.

  The map \<^verbatim>\<open>shards map[string]*shardState\<close> is an association list: Go iterates a map in an
  unspecified order, and two functions of the file (\<^verbatim>\<open>beingResharded\<close>,
  \<^verbatim>\<open>getMoveTablesStatus\<close>) return a result that depends on it. The order of the list is
  that iteration order; a theorem for every list is a theorem for every order. The map
  \<^verbatim>\<open>keyspaces map[string]*keyspaceState\<close> is only looked up, stored to and deleted from in
  the functions embedded here; it is a partial function.
\<close>

datatype TabletType =
  UNKNOWN | PRIMARY | REPLICA | RDONLY | SPARE | EXPERIMENTAL | BACKUP | RESTORE | DRAINED

datatype error = NoNode | Canceled | DeadlineExceeded | OtherError string

record TabletAlias =
  alias_Cell :: string
  alias_Uid :: "32 word"

record Target =
  Keyspace :: string
  Shard :: string
  TabletType :: TabletType

record Tablet =
  Alias :: "TabletAlias option"

record TabletHealth =
  Tablet :: Tablet
  Target :: Target
  Serving :: bool
  PrimaryTermStartTime :: "64 word"

record shardState =
  target :: Target
  serving :: bool
  waitForReparent :: bool
  externallyReparented :: "64 word"
  currentPrimary :: "TabletAlias option"

datatype MoveTablesStatus = MoveTablesUnknown | MoveTablesSwitching | MoveTablesSwitched

datatype MoveTablesType = MoveTablesNone | MoveTablesRegular | MoveTablesShardByShard

record MoveTablesState =
  Typ :: MoveTablesType
  State :: MoveTablesStatus

record KeyRange =
  Start :: "8 word list"
  End :: "8 word list"

record ShardReference =
  ref_Name :: string
  ref_KeyRange :: "KeyRange option"

record ShardTabletControl =
  stc_Name :: string
  stc_KeyRange :: "KeyRange option"
  QueryServiceDisabled :: bool

record KeyspacePartition =
  ServedType :: TabletType
  ShardReferences :: "ShardReference list"
  ShardTabletControls :: "ShardTabletControl list"

record SrvKeyspace =
  Partitions :: "KeyspacePartition list"

record ShardEvent =
  ev_Tablet :: "TabletAlias option"
  ev_Target :: Target
  ev_Serving :: bool

record KeyspaceEvent =
  ev_Cell :: string
  ev_Keyspace :: string
  ev_Shards :: "ShardEvent list"
  ev_MoveTablesState :: MoveTablesState

text \<open>
  \<^verbatim>\<open>keyspaceState\<close>. The back pointer \<^verbatim>\<open>kew\<close> is read for \<^verbatim>\<open>kew.localCell\<close>, which never
  changes after construction, and for the topology server and \<^verbatim>\<open>broadcast\<close>; the record
  keeps the cell name, the topology server is an argument of the one method that calls it,
  and broadcasts are returned.
\<close>

record keyspaceState =
  kew_localCell :: string
  keyspace :: string
  deleted :: bool
  consistent :: bool
  lastError :: "error option"
  lastKeyspace :: "SrvKeyspace option"
  shards :: "(string \<times> shardState) list"
  moveTablesState :: "MoveTablesState option"

record KeyspaceEventWatcher =
  localCell :: string
  keyspaces :: "string \<rightharpoonup> keyspaceState"

section \<open>Reconciliation\<close>

text \<open>
  Modelled from the spec: \<^verbatim>\<open>topoproto.SrvKeyspaceGetPartition\<close> is not among the sources.
  The spec has \<^verbatim>\<open>ensureConsistent\<close> obtain the PRIMARY partition from \<^verbatim>\<open>lastKeyspace\<close> and
  return when it is absent; the partition of a snapshot is the first one served for the
  tablet type, and a nil snapshot has none.
\<close>

definition SrvKeyspaceGetPartition ::
  "SrvKeyspace option \<Rightarrow> TabletType \<Rightarrow> KeyspacePartition option" where
  "SrvKeyspaceGetPartition sk tabletType =
     (case sk of
        None \<Rightarrow> None
      | Some k \<Rightarrow> find (\<lambda>p. ServedType p = tabletType) (Partitions k))"

text \<open>
  First loop of \<^verbatim>\<open>ensureConsistentLocked\<close>: every shard of the partition must be tracked and
  serving; \<open>None\<close> is the early return, \<open>Some\<close> carries \<^verbatim>\<open>activeShardsInPartition\<close>.
\<close>

fun activeShards ::
  "(string \<times> shardState) list \<Rightarrow> ShardReference list \<Rightarrow> string list \<Rightarrow> string list option" where
  "activeShards shs [] active = Some active"
| "activeShards shs (shard # rest) active =
     (case map_of shs (ref_Name shard) of
        None \<Rightarrow> None
      | Some sstate \<Rightarrow>
          if \<not> serving sstate then None
          else activeShards shs rest (ref_Name shard # active))"

text \<open>Second loop: a serving shard that the partition does not name.\<close>

fun servingOutside :: "(string \<times> shardState) list \<Rightarrow> string list \<Rightarrow> bool" where
  "servingOutside [] active = False"
| "servingOutside ((shard, sstate) # rest) active =
     (if serving sstate \<and> shard \<notin> set active then True else servingOutside rest active)"

text \<open>
  Third loop: one \<^verbatim>\<open>ShardEvent\<close> per shard, in iteration order, and the non-serving shards
  are deleted from the map.
\<close>

definition shardEvents :: "(string \<times> shardState) list \<Rightarrow> ShardEvent list" where
  "shardEvents shs =
     map (\<lambda>(shard, sstate).
            \<lparr>ev_Tablet = currentPrimary sstate, ev_Target = target sstate,
             ev_Serving = serving sstate\<rparr>) shs"

definition ensureConsistentLocked :: "keyspaceState \<Rightarrow> keyspaceState \<times> KeyspaceEvent list" where
  "ensureConsistentLocked kss =
     (if consistent kss then (kss, [])
      else if (case moveTablesState kss of
                 None \<Rightarrow> False
               | Some m \<Rightarrow> Typ m \<noteq> MoveTablesNone \<and> State m \<noteq> MoveTablesSwitched)
      then (kss, [])
      else
        (case SrvKeyspaceGetPartition (lastKeyspace kss) PRIMARY of
           None \<Rightarrow> (kss, [])
         | Some primary \<Rightarrow>
             if ShardTabletControls primary \<noteq> [] then (kss, [])
             else
               (case activeShards (shards kss) (ShardReferences primary) [] of
                  None \<Rightarrow> (kss, [])
                | Some activeShardsInPartition \<Rightarrow>
                    if servingOutside (shards kss) activeShardsInPartition then (kss, [])
                    else
                      (kss\<lparr>consistent := True, moveTablesState := None,
                           shards := filter (\<lambda>(shard, sstate). serving sstate) (shards kss)\<rparr>,
                       [\<lparr>ev_Cell = kew_localCell kss, ev_Keyspace = keyspace kss,
                         ev_Shards = shardEvents (shards kss),
                         ev_MoveTablesState =
                           (case moveTablesState kss of
                              None \<Rightarrow> \<lparr>Typ = MoveTablesNone, State = MoveTablesUnknown\<rparr>
                            | Some m \<Rightarrow> m)\<rparr>]))))"

text \<open>
  The part of \<^verbatim>\<open>onHealthCheck\<close> that works on the shard state found or allocated (the
  serving switch, the latch reset and the external-reparent detection). It returns the new
  shard state and whether \<^verbatim>\<open>kss.consistent = false\<close> was executed.
\<close>

definition healthUpdate :: "TabletHealth \<Rightarrow> shardState \<Rightarrow> shardState \<times> bool" where
  "healthUpdate th sstate =
     (let (s1, c1) =
            (if serving sstate \<noteq> Serving th then
               (if Serving th \<and> waitForReparent sstate then
                  (if externallyReparented sstate <s PrimaryTermStartTime th
                   then sstate\<lparr>waitForReparent := False, serving := True\<rparr>
                   else sstate)
                else if Serving th \<and> \<not> waitForReparent sstate then sstate\<lparr>serving := True\<rparr>
                else sstate\<lparr>serving := False\<rparr>,
                True)
             else (sstate, False));
          s2 = (if \<not> Serving th then s1\<lparr>waitForReparent := False\<rparr> else s1)
      in if PrimaryTermStartTime th \<noteq> 0 \<and> externallyReparented s2 <s PrimaryTermStartTime th
         then (s2\<lparr>externallyReparented := PrimaryTermStartTime th,
                  currentPrimary := Alias (Tablet th)\<rparr>, True)
         else (s2, c1))"

definition newShardState :: "Target \<Rightarrow> shardState" where
  "newShardState t =
     \<lparr>target = t, serving = False, waitForReparent = False, externallyReparented = 0,
      currentPrimary = None\<rparr>"

definition onHealthCheck :: "keyspaceState \<Rightarrow> TabletHealth \<Rightarrow> keyspaceState \<times> KeyspaceEvent list" where
  "onHealthCheck kss th =
     (if TabletType (Target th) \<noteq> PRIMARY then (kss, [])
      else
        (case map_of (shards kss) (Shard (Target th)) of
           None \<Rightarrow>
             if \<not> Serving th then (kss, [])
             else
               (let (sstate, inconsistent) = healthUpdate th (newShardState (Target th))
                in ensureConsistentLocked
                     (kss\<lparr>shards := AList.update (Shard (Target th)) sstate (shards kss),
                          consistent := consistent kss \<and> \<not> inconsistent\<rparr>))
         | Some sstate0 \<Rightarrow>
             (let (sstate, inconsistent) = healthUpdate th sstate0
              in ensureConsistentLocked
                   (kss\<lparr>shards := AList.update (Shard (Target th)) sstate (shards kss),
                        consistent := consistent kss \<and> \<not> inconsistent\<rparr>))))"

section \<open>Topology callbacks\<close>

text \<open>
  \<^verbatim>\<open>proto.Equal\<close> is equality of the message values (two nil messages are equal, a nil
  and a non-nil one are not); \<^verbatim>\<open>topo.IsErrType(err, topo.NoNode)\<close> holds of the error
  \<open>NoNode\<close> only.
\<close>

definition onSrvKeyspace ::
  "keyspaceState \<Rightarrow> SrvKeyspace option \<Rightarrow> error option
     \<Rightarrow> keyspaceState \<times> KeyspaceEvent list \<times> bool" where
  "onSrvKeyspace kss newKeyspace newError =
     (if newError = Some NoNode then (kss\<lparr>deleted := True\<rparr>, [], False)
      else
        (case newError of
           Some e \<Rightarrow> (kss\<lparr>lastError := Some e\<rparr>, [], True)
         | None \<Rightarrow>
             if lastKeyspace kss = newKeyspace then (kss, [], True)
             else
               (let oldPrimary =
                      (if lastKeyspace kss \<noteq> None
                       then SrvKeyspaceGetPartition (lastKeyspace kss) PRIMARY else None);
                    newPrimary =
                      (if newKeyspace \<noteq> None
                       then SrvKeyspaceGetPartition newKeyspace PRIMARY else None);
                    kss1 = (if oldPrimary \<noteq> newPrimary then kss\<lparr>consistent := False\<rparr> else kss);
                    (kss2, evs) = ensureConsistentLocked (kss1\<lparr>lastKeyspace := newKeyspace\<rparr>)
                in (kss2, evs, True))))"

section \<open>Move-tables detection\<close>

record RoutingRule =
  FromTable :: string
  ToTables :: "string list"

record ShardRoutingRule =
  FromKeyspace :: string
  ToKeyspace :: string
  srr_Shard :: string

text \<open>
  \<^verbatim>\<open>vschemapb.SrvVSchema\<close>: the two rule messages are nullable and hold a list of rules;
  \<open>GetRules\<close> is the nil-safe getter chain \<^verbatim>\<open>vs.GetRoutingRules().GetRules()\<close>.
\<close>

record SrvVSchema =
  RoutingRules :: "RoutingRule list option"
  ShardRoutingRules :: "ShardRoutingRule list option"

definition GetRules :: "'a list option \<Rightarrow> 'a list" where
  "GetRules rules = (case rules of None \<Rightarrow> [] | Some rs \<Rightarrow> rs)"

record TabletControl =
  DeniedTables :: "string list"

record ShardInfo =
  ShardName :: string
  TabletControls :: "TabletControl list"

text \<open>
  The topology server as \<^verbatim>\<open>getMoveTablesStatus\<close> sees it: \<^verbatim>\<open>kss.kew.ts.GetTopoServer()\<close>
  fails or gives a server whose \<^verbatim>\<open>GetShard(ctx, keyspace, shard)\<close> fails (also on the
  timeout of the context) or gives the shard record.
\<close>

type_synonym topoServer = "error + (string \<Rightarrow> string \<Rightarrow> error + ShardInfo)"

text \<open>
  Modelled from the spec: \<^verbatim>\<open>topotools.GetRoutingRulesMap\<close>,
  \<^verbatim>\<open>topotools.GetShardRoutingRulesMap\<close> and \<^verbatim>\<open>topotools.GetShardRoutingRuleKey\<close> are not
  among the sources. The spec has a table-level map \<open>table \<rightarrow> [qualified-table]\<close> and a
  shard-level map \<open>(keyspace, shard) \<rightarrow> qualified-shard\<close>; a nil rule message gives a nil
  map, and a later rule for a key replaces an earlier one.
\<close>

definition GetRoutingRulesMap :: "RoutingRule list option \<Rightarrow> (string \<rightharpoonup> string list) option" where
  "GetRoutingRulesMap rules =
     (case rules of
        None \<Rightarrow> None
      | Some rs \<Rightarrow> Some (map_of (rev (map (\<lambda>r. (FromTable r, ToTables r)) rs))))"

definition GetShardRoutingRuleKey :: "string \<Rightarrow> string \<Rightarrow> string \<times> string" where
  "GetShardRoutingRuleKey fromKeyspace shard = (fromKeyspace, shard)"

definition GetShardRoutingRulesMap ::
  "ShardRoutingRule list option \<Rightarrow> (string \<times> string \<rightharpoonup> string) option" where
  "GetShardRoutingRulesMap rules =
     (case rules of
        None \<Rightarrow> None
      | Some rs \<Rightarrow>
          Some (map_of (rev (map (\<lambda>r. (GetShardRoutingRuleKey (FromKeyspace r) (srr_Shard r),
                                        ToKeyspace r)) rs))))"

text \<open>
  The parallel fetch of the shard records. The error group returns its first error; the
  records are appended as the fetches complete. The model fetches in the iteration order of
  \<^verbatim>\<open>kss.shards\<close> and stops at the first error in that order.
\<close>

fun fetchShards :: "(string \<Rightarrow> error + ShardInfo) \<Rightarrow> string list \<Rightarrow> error + ShardInfo list" where
  "fetchShards getShard [] = Inr []"
| "fetchShards getShard (shard # rest) =
     (case getShard shard of
        Inl err \<Rightarrow> Inl err
      | Inr si \<Rightarrow>
          (case fetchShards getShard rest of
             Inl err \<Rightarrow> Inl err
           | Inr sis \<Rightarrow> Inr (si # sis)))"

text \<open>
  The scan for denied tables: the pair is \<^verbatim>\<open>(shardsWithDeniedTables, oneDeniedTable)\<close>.
\<close>

fun scanTabletControls ::
  "string \<Rightarrow> TabletControl list \<Rightarrow> string list \<times> string \<Rightarrow> string list \<times> string" where
  "scanTabletControls name [] acc = acc"
| "scanTabletControls name (tc # tcs) (shardsWithDeniedTables, oneDeniedTable) =
     (case DeniedTables tc of
        [] \<Rightarrow> scanTabletControls name tcs (shardsWithDeniedTables, oneDeniedTable)
      | t # _ \<Rightarrow> scanTabletControls name tcs (shardsWithDeniedTables @ [name], t))"

fun scanShardInfos :: "ShardInfo list \<Rightarrow> string list \<times> string \<Rightarrow> string list \<times> string" where
  "scanShardInfos [] acc = acc"
| "scanShardInfos (si # sis) acc =
     scanShardInfos sis (scanTabletControls (ShardName si) (TabletControls si) acc)"

text \<open>The loop over the denied shards of a shard-by-shard migration, with its break.\<close>

fun stillRoutedToSource ::
  "(string \<times> string \<rightharpoonup> string) option \<Rightarrow> string \<Rightarrow> string list \<Rightarrow> bool" where
  "stillRoutedToSource srr ks [] = False"
| "stillRoutedToSource srr ks (shard # rest) =
     (case srr of
        None \<Rightarrow> stillRoutedToSource srr ks rest
      | Some m \<Rightarrow>
          if m (GetShardRoutingRuleKey ks shard) \<noteq> None then True
          else stillRoutedToSource srr ks rest)"

definition getMoveTablesStatus ::
  "topoServer \<Rightarrow> keyspaceState \<Rightarrow> SrvVSchema \<Rightarrow> MoveTablesState \<times> error option" where
  "getMoveTablesStatus ts kss vs =
     (let mtState = \<lparr>Typ = MoveTablesNone, State = MoveTablesUnknown\<rparr>
      in if GetRules (RoutingRules vs) = [] \<and> GetRules (ShardRoutingRules vs) = []
         then (mtState, None)
         else
           (case ts of
              Inl err \<Rightarrow> (mtState, Some err)
            | Inr topo \<Rightarrow>
                (case fetchShards (topo (keyspace kss))
                        (map (\<lambda>(shard, sstate). Shard (target sstate)) (shards kss)) of
                   Inl err \<Rightarrow> (mtState, Some err)
                 | Inr shardInfos \<Rightarrow>
                     (let (shardsWithDeniedTables, oneDeniedTable) =
                            scanShardInfos shardInfos ([], [])
                      in if shardsWithDeniedTables = [] then (mtState, None)
                         else if ShardRoutingRules vs \<noteq> None
                                 \<and> GetRules (ShardRoutingRules vs) \<noteq> []
                         then
                           (\<lparr>Typ = MoveTablesShardByShard,
                             State =
                               (if stillRoutedToSource
                                     (GetShardRoutingRulesMap (ShardRoutingRules vs))
                                     (keyspace kss) shardsWithDeniedTables
                                then MoveTablesSwitching else MoveTablesSwitched)\<rparr>, None)
                         else
                           (\<lparr>Typ = MoveTablesRegular,
                             State =
                               (case GetRoutingRulesMap (RoutingRules vs) of
                                  None \<Rightarrow> MoveTablesSwitching
                                | Some rr \<Rightarrow>
                                    (case rr oneDeniedTable of
                                       None \<Rightarrow> MoveTablesSwitching
                                     | Some [] \<Rightarrow> MoveTablesSwitching
                                     | Some (r0 # _) \<Rightarrow>
                                         if r0 \<noteq> keyspace kss @ ''.'' @ oneDeniedTable
                                         then MoveTablesSwitched
                                         else MoveTablesSwitching))\<rparr>, None)))))"

text \<open>
  \<^verbatim>\<open>onSrvVSchema\<close>. The result of the detector is assigned to \<^verbatim>\<open>kss.moveTablesState\<close> in
  the \<^verbatim>\<open>if\<close> statement's initialiser, whatever the error; the condition of that \<^verbatim>\<open>if\<close>
  (on the callback's own \<^verbatim>\<open>err\<close>) only guards a log line.
\<close>

definition onSrvVSchema ::
  "topoServer \<Rightarrow> keyspaceState \<Rightarrow> SrvVSchema option \<Rightarrow> error option
     \<Rightarrow> keyspaceState \<times> KeyspaceEvent list \<times> bool" where
  "onSrvVSchema ts kss vs err =
     (case vs of
        None \<Rightarrow> (kss, [], True)
      | Some v \<Rightarrow>
          (let (mt, kerr) = getMoveTablesStatus ts kss v;
               kss1 = kss\<lparr>moveTablesState := Some mt\<rparr>
           in if Typ mt \<noteq> MoveTablesNone
              then (let (kss2, evs) = ensureConsistentLocked (kss1\<lparr>consistent := False\<rparr>)
                    in (kss2, evs, True))
              else (kss1, [], True)))"

section \<open>The watcher\<close>

text \<open>
  \<^verbatim>\<open>newKeyspaceState\<close> also registers the two topology watchers; their callbacks are the
  events \<^verbatim>\<open>onSrvKeyspace\<close> and \<^verbatim>\<open>onSrvVSchema\<close> of this state and are delivered as
  separate steps.
\<close>

definition newKeyspaceState :: "string \<Rightarrow> string \<Rightarrow> keyspaceState" where
  "newKeyspaceState cell ks =
     \<lparr>kew_localCell = cell, keyspace = ks, deleted = False, consistent = False,
      lastError = None, lastKeyspace = None, shards = [], moveTablesState = None\<rparr>"

definition getKeyspaceStatus ::
  "KeyspaceEventWatcher \<Rightarrow> string \<Rightarrow> KeyspaceEventWatcher \<times> keyspaceState option" where
  "getKeyspaceStatus kew ks =
     (let (kew1, kss) =
            (case keyspaces kew ks of
               None \<Rightarrow>
                 (kew\<lparr>keyspaces := (keyspaces kew)(ks \<mapsto> newKeyspaceState (localCell kew) ks)\<rparr>,
                  newKeyspaceState (localCell kew) ks)
             | Some k \<Rightarrow> (kew, k))
      in if deleted kss
         then (kew1\<lparr>keyspaces := (keyspaces kew1)(ks := None)\<rparr>, None)
         else (kew1, Some kss))"

definition ShouldStartBufferingForTarget ::
  "KeyspaceEventWatcher \<Rightarrow> Target \<Rightarrow> KeyspaceEventWatcher \<times> TabletAlias option \<times> bool" where
  "ShouldStartBufferingForTarget kew tgt =
     (if TabletType tgt \<noteq> PRIMARY then (kew, None, False)
      else
        (case getKeyspaceStatus kew (Keyspace tgt) of
           (kew1, None) \<Rightarrow> (kew1, None, False)
         | (kew1, Some ks) \<Rightarrow>
             (case map_of (shards ks) (Shard tgt) of
                Some state \<Rightarrow>
                  (kew1, currentPrimary state,
                   \<not> serving state \<and> \<not> consistent ks \<and> externallyReparented state \<noteq> 0
                   \<and> currentPrimary state \<noteq> None)
              | None \<Rightarrow> (kew1, None, False))))"

text \<open>
  \<^verbatim>\<open>MarkShardNotServing\<close>: \<open>markNotServing\<close> is what it does to the shard state,
  \<open>markShardLocked\<close> what it does under the keyspace lock (\<open>None\<close> when the shard is not
  in the map).
\<close>

definition markNotServing :: "bool \<Rightarrow> shardState \<Rightarrow> shardState" where
  "markNotServing isReparentErr sstate =
     (let s1 = sstate\<lparr>serving := False\<rparr>
      in if isReparentErr then s1\<lparr>waitForReparent := True\<rparr> else s1)"

definition markShardLocked :: "keyspaceState \<Rightarrow> string \<Rightarrow> bool \<Rightarrow> keyspaceState option" where
  "markShardLocked kss shard isReparentErr =
     (case map_of (shards kss) shard of
        None \<Rightarrow> None
      | Some sstate \<Rightarrow>
          Some (kss\<lparr>consistent := False,
                    shards := AList.update shard (markNotServing isReparentErr sstate)
                                (shards kss)\<rparr>))"

definition MarkShardNotServing ::
  "KeyspaceEventWatcher \<Rightarrow> string \<Rightarrow> string \<Rightarrow> bool \<Rightarrow> KeyspaceEventWatcher \<times> bool" where
  "MarkShardNotServing kew ks shard isReparentErr =
     (case getKeyspaceStatus kew ks of
        (kew1, None) \<Rightarrow> (kew1, False)
      | (kew1, Some kss) \<Rightarrow>
          (case markShardLocked kss shard isReparentErr of
             None \<Rightarrow> (kew1, False)
           | Some kss' \<Rightarrow> (kew1\<lparr>keyspaces := (keyspaces kew1)(ks \<mapsto> kss')\<rparr>, True)))"

section \<open>Resharding detection\<close>

text \<open>
  \<^verbatim>\<open>topo.ValidateShardName\<close> and \<^verbatim>\<open>key.KeyRangeIntersect\<close> are not among the sources, so
  \<open>beingResharded\<close> takes them as the arguments \<open>validate\<close> and \<open>intersect\<close>:
  \<open>validate\<close> gives an error, or the key range of the name, which is nil for a name
  that has none.
\<close>

fun overlapLoop ::
  "(string \<Rightarrow> error + KeyRange option) \<Rightarrow> (KeyRange \<Rightarrow> KeyRange \<Rightarrow> bool)
     \<Rightarrow> string \<Rightarrow> KeyRange \<Rightarrow> (string \<times> shardState) list \<Rightarrow> bool" where
  "overlapLoop validate intersect currentShard ckr [] = False"
| "overlapLoop validate intersect currentShard ckr ((shard, sstate) # rest) =
     (if \<not> serving sstate \<or> shard = currentShard
      then overlapLoop validate intersect currentShard ckr rest
      else
        (case validate shard of
           Inl err \<Rightarrow> False
         | Inr None \<Rightarrow> False
         | Inr (Some skr) \<Rightarrow>
             if intersect ckr skr then True
             else overlapLoop validate intersect currentShard ckr rest))"

definition beingResharded ::
  "(string \<Rightarrow> error + KeyRange option) \<Rightarrow> (KeyRange \<Rightarrow> KeyRange \<Rightarrow> bool)
     \<Rightarrow> keyspaceState \<Rightarrow> string \<Rightarrow> bool" where
  "beingResharded validate intersect kss currentShard =
     (if deleted kss \<or> consistent kss
         \<or> (case moveTablesState kss of None \<Rightarrow> False | Some m \<Rightarrow> Typ m \<noteq> MoveTablesNone)
      then False
      else
        (case validate currentShard of
           Inl err \<Rightarrow> False
         | Inr None \<Rightarrow> False
         | Inr (Some ckr) \<Rightarrow> overlapLoop validate intersect currentShard ckr (shards kss)))"

text \<open>
  Modelled from the spec: \<^verbatim>\<open>topo.ValidateShardName\<close> and \<^verbatim>\<open>key.KeyRangeIntersect\<close>, for
  the concrete runs below. The spec names a shard by a key-range string (\<^verbatim>\<open>-80\<close>,
  \<^verbatim>\<open>80-c0\<close>, \<^verbatim>\<open>c0-\<close>, or \<^verbatim>\<open>0\<close> for an unsharded keyspace) that parses into a half-open
  interval of bytes, an empty bound being unbounded, and two shards overlap iff their
  intervals intersect. A name without a dash has no key range.
\<close>

definition hexDigit :: "char \<Rightarrow> nat option" where
  "hexDigit c =
     (let n = (of_char c :: nat)
      in if 48 \<le> n \<and> n \<le> 57 then Some (n - 48)
         else if 97 \<le> n \<and> n \<le> 102 then Some (n - 87)
         else if 65 \<le> n \<and> n \<le> 70 then Some (n - 55)
         else None)"

fun decodeHex :: "string \<Rightarrow> 8 word list option" where
  "decodeHex [] = Some []"
| "decodeHex [c] = None"
| "decodeHex (c # d # rest) =
     (case (hexDigit c, hexDigit d, decodeHex rest) of
        (Some h, Some l, Some bs) \<Rightarrow> Some (of_nat (16 * h + l) # bs)
      | _ \<Rightarrow> None)"

fun bytesLess :: "8 word list \<Rightarrow> 8 word list \<Rightarrow> bool" where
  "bytesLess [] [] = False"
| "bytesLess [] (y # ys) = True"
| "bytesLess (x # xs) [] = False"
| "bytesLess (x # xs) (y # ys) = (x < y \<or> (x = y \<and> bytesLess xs ys))"

fun splitOn :: "char \<Rightarrow> string \<Rightarrow> string list" where
  "splitOn c [] = [[]]"
| "splitOn c (x # xs) =
     (if x = c then [] # splitOn c xs
      else (case splitOn c xs of [] \<Rightarrow> [[x]] | p # ps \<Rightarrow> (x # p) # ps))"

definition ValidateShardName :: "string \<Rightarrow> error + KeyRange option" where
  "ValidateShardName shard =
     (if CHR ''-'' \<notin> set shard then Inr None
      else
        (case splitOn CHR ''-'' shard of
           [s, e] \<Rightarrow>
             (case (decodeHex s, decodeHex e) of
                (Some bs, Some be) \<Rightarrow>
                  if be \<noteq> [] \<and> \<not> bytesLess bs be
                  then Inl (OtherError ''invalid key range'')
                  else Inr (Some \<lparr>Start = bs, End = be\<rparr>)
              | _ \<Rightarrow> Inl (OtherError ''invalid key range''))
         | _ \<Rightarrow> Inl (OtherError ''invalid shardId'')))"

definition KeyRangeIntersect :: "KeyRange \<Rightarrow> KeyRange \<Rightarrow> bool" where
  "KeyRangeIntersect a b =
     ((End a = [] \<or> bytesLess (Start b) (End a)) \<and> (End b = [] \<or> bytesLess (Start a) (End b)))"

section \<open>Waiting for consistent keyspaces\<close>

text \<open>
  One pass of the inner loop of \<^verbatim>\<open>WaitForConsistentKeyspaces\<close> over the cloned list: the
  result is the watcher, the list with the consistent names emptied, and
  \<^verbatim>\<open>allConsistent\<close>.
\<close>

fun pollKeyspaces ::
  "KeyspaceEventWatcher \<Rightarrow> string list \<Rightarrow> KeyspaceEventWatcher \<times> string list \<times> bool" where
  "pollKeyspaces kew [] = (kew, [], True)"
| "pollKeyspaces kew (ks # rest) =
     (if ks = [] then
        (case pollKeyspaces kew rest of
           (kew2, rest2, allConsistent) \<Rightarrow> (kew2, ks # rest2, allConsistent))
      else
        (case getKeyspaceStatus kew ks of
           (kew1, kss) \<Rightarrow>
             (case pollKeyspaces kew1 rest of
                (kew2, rest2, allConsistent) \<Rightarrow>
                  if (case kss of None \<Rightarrow> True | Some k \<Rightarrow> consistent k)
                  then (kew2, [] # rest2, allConsistent)
                  else (kew2, ks # rest2, False))))"







section \<open>Event sequences on one keyspace\<close>

text \<open>
  Everything that writes to a \<^verbatim>\<open>keyspaceState\<close> after \<^verbatim>\<open>newKeyspaceState\<close>: the health
  callback, the two topology callbacks (the vschema callback with the topology server it
  will query), and \<^verbatim>\<open>MarkShardNotServing\<close> for one of its shards.
\<close>

datatype kssEvent =
  HealthCheck TabletHealth
| SrvKeyspaceUpdate "SrvKeyspace option" "error option"
| SrvVSchemaUpdate topoServer "SrvVSchema option" "error option"
| MarkNotServing string bool

fun kssStep :: "keyspaceState \<Rightarrow> kssEvent \<Rightarrow> keyspaceState" where
  "kssStep kss (HealthCheck th) = fst (onHealthCheck kss th)"
| "kssStep kss (SrvKeyspaceUpdate newKeyspace newError) =
     fst (onSrvKeyspace kss newKeyspace newError)"
| "kssStep kss (SrvVSchemaUpdate ts vs err) = fst (onSrvVSchema ts kss vs err)"
| "kssStep kss (MarkNotServing shard isReparentErr) =
     (case markShardLocked kss shard isReparentErr of None \<Rightarrow> kss | Some kss' \<Rightarrow> kss')"

text \<open>The states a keyspace goes through: before the first event and after each one.\<close>

fun kssRun :: "keyspaceState \<Rightarrow> kssEvent list \<Rightarrow> keyspaceState list" where
  "kssRun kss [] = [kss]"
| "kssRun kss (ev # evs) = kss # kssRun (kssStep kss ev) evs"

text \<open>
  What a consistent keyspace looks like: the PRIMARY partition of \<^verbatim>\<open>lastKeyspace\<close> exists,
  carries no \<^verbatim>\<open>ShardTabletControls\<close> and names exactly the serving shards of the map, and
  \<^verbatim>\<open>moveTablesState\<close> is nil or of type \<^verbatim>\<open>None\<close>.
\<close>

definition consistentView :: "keyspaceState \<Rightarrow> bool" where
  "consistentView kss \<longleftrightarrow>
     (\<exists>primary. SrvKeyspaceGetPartition (lastKeyspace kss) PRIMARY = Some primary
        \<and> ShardTabletControls primary = []
        \<and> ref_Name ` set (ShardReferences primary) =
            {s. \<exists>st. map_of (shards kss) s = Some st \<and> serving st})
     \<and> (case moveTablesState kss of None \<Rightarrow> True | Some m \<Rightarrow> Typ m = MoveTablesNone)"

text \<open>
  What an event does to the \<^verbatim>\<open>shardState\<close> stored under the name \<open>n\<close>, as long as the
  state stays in the map: the health callback of a PRIMARY target of that shard applies
  \<open>healthUpdate\<close>, \<^verbatim>\<open>MarkShardNotServing\<close> of that shard applies \<open>markNotServing\<close>, and
  the topology callbacks write to no shard state.
\<close>

fun shardStep :: "string \<Rightarrow> kssEvent \<Rightarrow> shardState \<Rightarrow> shardState" where
  "shardStep n (HealthCheck th) s =
     (if TabletType (Target th) = PRIMARY \<and> Shard (Target th) = n
      then fst (healthUpdate th s) else s)"
| "shardStep n (SrvKeyspaceUpdate newKeyspace newError) s = s"
| "shardStep n (SrvVSchemaUpdate ts vs err) s = s"
| "shardStep n (MarkNotServing shard isReparentErr) s =
     (if shard = n then markNotServing isReparentErr s else s)"

section \<open>Concrete states\<close>

text \<open>
  A watcher of cell \<^verbatim>\<open>aa\<close> that tracks keyspace \<^verbatim>\<open>ks\<close> with the shard \<^verbatim>\<open>-80\<close>: the
  shard has a primary, is not serving and waits for a reparent; the keyspace is
  inconsistent.
\<close>

definition aliasA :: TabletAlias where
  "aliasA = \<lparr>alias_Cell = ''aa'', alias_Uid = 1\<rparr>"

definition exTarget :: Target where
  "exTarget = \<lparr>Keyspace = ''ks'', Shard = ''-80'', TabletType = PRIMARY\<rparr>"

definition exShard :: shardState where
  "exShard = \<lparr>target = exTarget, serving = False, waitForReparent = True,
     externallyReparented = 100, currentPrimary = Some aliasA\<rparr>"

definition exKss :: keyspaceState where
  "exKss = (newKeyspaceState ''aa'' ''ks'')\<lparr>shards := [(''-80'', exShard)]\<rparr>"

definition exKew :: KeyspaceEventWatcher where
  "exKew = \<lparr>localCell = ''aa'', keyspaces = [''ks'' \<mapsto> exKss]\<rparr>"

text \<open>
  A topology snapshot whose PRIMARY partition names the shard \<^verbatim>\<open>-80\<close>; a vschema with
  the table rule \<^verbatim>\<open>t -> otherks.t\<close> and no shard rules; the keyspace in the middle of a
  regular MoveTables; a topology server that is down, and one whose every shard record
  denies the table \<^verbatim>\<open>t\<close>.
\<close>

definition exPartition :: KeyspacePartition where
  "exPartition = \<lparr>ServedType = PRIMARY,
     ShardReferences = [\<lparr>ref_Name = ''-80'', ref_KeyRange = None\<rparr>],
     ShardTabletControls = []\<rparr>"

definition exSrvKeyspace :: SrvKeyspace where
  "exSrvKeyspace = \<lparr>Partitions = [exPartition]\<rparr>"

definition exVSchema :: SrvVSchema where
  "exVSchema = \<lparr>RoutingRules = Some [\<lparr>FromTable = ''t'', ToTables = [''otherks.t'']\<rparr>],
     ShardRoutingRules = None\<rparr>"

definition exKssMoving :: keyspaceState where
  "exKssMoving = exKss\<lparr>moveTablesState :=
     Some \<lparr>Typ = MoveTablesRegular, State = MoveTablesSwitching\<rparr>\<rparr>"

definition exTopoDown :: topoServer where
  "exTopoDown = Inl (OtherError ''topo server unavailable'')"

definition exGetShard :: "string \<Rightarrow> string \<Rightarrow> error + ShardInfo" where
  "exGetShard ks shard =
     Inr \<lparr>ShardName = shard, TabletControls = [\<lparr>DeniedTables = [''t'']\<rparr>]\<rparr>"

text \<open>
  Serving shards for the resharding runs: an unsharded keyspace whose shard \<^verbatim>\<open>0\<close> serves
  next to the full range \<^verbatim>\<open>-\<close>, and a keyspace whose parent \<^verbatim>\<open>-\<close> serves next to its
  child \<^verbatim>\<open>-80\<close>. Both keyspaces are inconsistent.
\<close>

definition exServing :: "string \<Rightarrow> shardState" where
  "exServing shard =
     \<lparr>target = \<lparr>Keyspace = ''ks'', Shard = shard, TabletType = PRIMARY\<rparr>, serving = True,
      waitForReparent = False, externallyReparented = 100, currentPrimary = Some aliasA\<rparr>"

definition exKssUnsharded :: keyspaceState where
  "exKssUnsharded = (newKeyspaceState ''aa'' ''ks'')
     \<lparr>shards := [(''0'', exServing ''0''), (''-'', exServing ''-'')]\<rparr>"

definition exKssSplit :: keyspaceState where
  "exKssSplit = (newKeyspaceState ''aa'' ''ks'')
     \<lparr>shards := [(''-'', exServing ''-''), (''-80'', exServing ''-80'')]\<rparr>"



text \<open>
  Health reports of the primary of shard \<^verbatim>\<open>-80\<close>: a stale one from tablet A with the
  term start 100 that the shard already has, and one from tablet B with the term start
  150, with the shard state B's report leaves. A vschema without rules, and two event
  sequences for a fresh keyspace: the topology names \<^verbatim>\<open>-80\<close> and its primary reports
  serving; then the vschema without rules arrives.
\<close>

definition aliasB :: TabletAlias where
  "aliasB = \<lparr>alias_Cell = ''aa'', alias_Uid = 2\<rparr>"

definition exHealthA :: TabletHealth where
  "exHealthA = \<lparr>Tablet = \<lparr>Alias = Some aliasA\<rparr>, Target = exTarget, Serving = True,
     PrimaryTermStartTime = 100\<rparr>"

definition exHealthB :: TabletHealth where
  "exHealthB = \<lparr>Tablet = \<lparr>Alias = Some aliasB\<rparr>, Target = exTarget, Serving = True,
     PrimaryTermStartTime = 150\<rparr>"

definition exShardNew :: shardState where
  "exShardNew = \<lparr>target = exTarget, serving = True, waitForReparent = False,
     externallyReparented = 150, currentPrimary = Some aliasB\<rparr>"

definition exNoRules :: SrvVSchema where
  "exNoRules = \<lparr>RoutingRules = None, ShardRoutingRules = None\<rparr>"

definition exEvents :: "kssEvent list" where
  "exEvents = [SrvKeyspaceUpdate (Some exSrvKeyspace) None, HealthCheck exHealthA]"

definition exEventsVSchema :: "kssEvent list" where
  "exEventsVSchema = exEvents @ [SrvVSchemaUpdate exTopoDown (Some exNoRules) None]"

section \<open>Looking up a keyspace\<close>

lemma map_of_Some_key: "map_of al k = Some v \<Longrightarrow> k \<in> fst ` set al"
  by (metis domI dom_map_of_conv_image_fst)

lemma getKeyspaceStatus_tracked:
  "keyspaces kew ks = Some kss \<Longrightarrow> \<not> deleted kss \<Longrightarrow> getKeyspaceStatus kew ks = (kew, Some kss)"
  by (simp add: getKeyspaceStatus_def)

lemma getKeyspaceStatus_deleted:
  "keyspaces kew ks = Some kss \<Longrightarrow> deleted kss \<Longrightarrow>
   getKeyspaceStatus kew ks = (kew\<lparr>keyspaces := (keyspaces kew)(ks := None)\<rparr>, None)"
  by (simp add: getKeyspaceStatus_def)

lemma getKeyspaceStatus_unknown:
  "keyspaces kew ks = None \<Longrightarrow>
   getKeyspaceStatus kew ks =
     (kew\<lparr>keyspaces := (keyspaces kew)(ks \<mapsto> newKeyspaceState (localCell kew) ks)\<rparr>,
      Some (newKeyspaceState (localCell kew) ks))"
  by (simp add: getKeyspaceStatus_def newKeyspaceState_def)

section \<open>The buffering decision\<close>

text \<open>
  C1, as the code has it. The boolean of \<^verbatim>\<open>ShouldStartBufferingForTarget\<close> is true iff
  the target is PRIMARY, its keyspace is in the watcher's map and not deleted, its shard is
  in the keyspace's shard map, and the shard state has a non-nil \<^verbatim>\<open>currentPrimary\<close>,
  \<^verbatim>\<open>externallyReparented != 0\<close>, \<^verbatim>\<open>serving == false\<close>, with the keyspace inconsistent.
  The alias returned is the stored \<^verbatim>\<open>currentPrimary\<close> of the shard, whatever the boolean,
  when the target is PRIMARY and the shard is tracked in a keyspace that is not deleted;
  it is nil in every other case.
\<close>

theorem ShouldStartBufferingForTarget_decision:
  "(snd (snd (ShouldStartBufferingForTarget kew tgt)) \<longleftrightarrow>
      TabletType tgt = PRIMARY
      \<and> (\<exists>kss state. keyspaces kew (Keyspace tgt) = Some kss \<and> \<not> deleted kss
            \<and> map_of (shards kss) (Shard tgt) = Some state
            \<and> currentPrimary state \<noteq> None \<and> externallyReparented state \<noteq> 0
            \<and> \<not> serving state \<and> \<not> consistent kss))
   \<and> (fst (snd (ShouldStartBufferingForTarget kew tgt)) =
        (case keyspaces kew (Keyspace tgt) of
           None \<Rightarrow> None
         | Some kss \<Rightarrow>
             (case map_of (shards kss) (Shard tgt) of
                None \<Rightarrow> None
              | Some state \<Rightarrow>
                  if TabletType tgt = PRIMARY \<and> \<not> deleted kss then currentPrimary state
                  else None)))"
proof (cases "keyspaces kew (Keyspace tgt)")
  case None
  then show ?thesis
    by (simp add: ShouldStartBufferingForTarget_def getKeyspaceStatus_unknown newKeyspaceState_def)
next
  case (Some kss)
  then show ?thesis
    by (cases "deleted kss")
      (auto simp: ShouldStartBufferingForTarget_def getKeyspaceStatus_tracked
        getKeyspaceStatus_deleted split: option.splits)
qed

text \<open>
  On the concrete watcher the PRIMARY target of shard \<^verbatim>\<open>-80\<close> is to be buffered, and the
  alias is the stored primary.
\<close>

theorem ShouldStartBufferingForTarget_decision_witness:
  "snd (snd (ShouldStartBufferingForTarget exKew exTarget))
   \<and> fst (snd (ShouldStartBufferingForTarget exKew exTarget)) = Some aliasA"
  using ShouldStartBufferingForTarget_decision [of exKew exTarget]
  by (simp add: exKew_def exKss_def exShard_def exTarget_def newKeyspaceState_def)

text \<open>
  The alias is not returned for every target whose shard is tracked: a REPLICA target of
  the tracked shard \<^verbatim>\<open>-80\<close> gets a nil alias, by the first guard of the function.
\<close>

theorem ShouldStartBufferingForTarget_alias_counterexample:
  "keyspaces exKew ''ks'' = Some exKss \<and> \<not> deleted exKss
   \<and> map_of (shards exKss) ''-80'' = Some exShard
   \<and> fst (snd (ShouldStartBufferingForTarget exKew
                  \<lparr>Keyspace = ''ks'', Shard = ''-80'', TabletType = REPLICA\<rparr>))
       \<noteq> currentPrimary exShard"
  by (simp add: ShouldStartBufferingForTarget_def exKew_def exKss_def exShard_def
      newKeyspaceState_def)

section \<open>Marking a shard not serving\<close>

text \<open>
  C10. For a keyspace in the map that is not deleted, \<^verbatim>\<open>MarkShardNotServing\<close> with
  \<^verbatim>\<open>isReparentErr == false\<close> on a shard of the shard map returns true, sets the shard's
  \<^verbatim>\<open>serving\<close> to false and the keyspace's \<^verbatim>\<open>consistent\<close> to false, and changes nothing
  else: the shard's \<^verbatim>\<open>waitForReparent\<close>, \<^verbatim>\<open>externallyReparented\<close>, \<^verbatim>\<open>currentPrimary\<close> and
  \<^verbatim>\<open>target\<close>, the other shards, the other fields of the keyspace and the other keyspaces
  stay as they were. On a shard that is not in the map it returns false and the watcher
  is unchanged.
\<close>

theorem MarkShardNotServing_no_reparent_frame:
  assumes "keyspaces kew ks = Some kss" and "\<not> deleted kss"
  shows "(case map_of (shards kss) shard of
            None \<Rightarrow> MarkShardNotServing kew ks shard False = (kew, False)
          | Some sstate \<Rightarrow>
              (\<exists>kew' kss'. MarkShardNotServing kew ks shard False = (kew', True)
                 \<and> localCell kew' = localCell kew
                 \<and> (\<forall>k. k \<noteq> ks \<longrightarrow> keyspaces kew' k = keyspaces kew k)
                 \<and> keyspaces kew' ks = Some kss'
                 \<and> kss' = kss\<lparr>consistent := False, shards := shards kss'\<rparr>
                 \<and> map_of (shards kss') shard = Some (sstate\<lparr>serving := False\<rparr>)
                 \<and> (\<forall>n. n \<noteq> shard \<longrightarrow> map_of (shards kss') n = map_of (shards kss) n)
                 \<and> map fst (shards kss') = map fst (shards kss)))"
  using assms
  by (auto simp: MarkShardNotServing_def getKeyspaceStatus_tracked markShardLocked_def
      markNotServing_def update_conv' AList.update_keys map_of_Some_key split: option.splits)

text \<open>
  The concrete watcher: shard \<^verbatim>\<open>-80\<close> has its latch set and keeps it; shard \<^verbatim>\<open>80-\<close> is
  not tracked.
\<close>

theorem MarkShardNotServing_no_reparent_frame_witness:
  "keyspaces exKew ''ks'' = Some exKss \<and> \<not> deleted exKss
   \<and> map_of (shards exKss) ''-80'' = Some exShard \<and> waitForReparent exShard
   \<and> (\<exists>kew' kss'. MarkShardNotServing exKew ''ks'' ''-80'' False = (kew', True)
        \<and> keyspaces kew' ''ks'' = Some kss'
        \<and> map_of (shards kss') ''-80'' = Some (exShard\<lparr>serving := False\<rparr>))
   \<and> map_of (shards exKss) ''80-'' = None
   \<and> MarkShardNotServing exKew ''ks'' ''80-'' False = (exKew, False)"
proof -
  have h1: "keyspaces exKew ''ks'' = Some exKss" by (simp add: exKew_def)
  have h2: "\<not> deleted exKss" by (simp add: exKss_def newKeyspaceState_def)
  have s1: "map_of (shards exKss) ''-80'' = Some exShard" by (simp add: exKss_def)
  have s2: "map_of (shards exKss) ''80-'' = None" by (simp add: exKss_def)
  have w: "waitForReparent exShard" by (simp add: exShard_def)
  from MarkShardNotServing_no_reparent_frame [OF h1 h2, of "''-80''"]
    MarkShardNotServing_no_reparent_frame [OF h1 h2, of "''80-''"] h1 h2 s1 s2 w
  show ?thesis by auto
qed

section \<open>Replaying a topology snapshot\<close>

lemma ensureConsistentLocked_frame:
  "lastKeyspace (fst (ensureConsistentLocked kss)) = lastKeyspace kss"
  "deleted (fst (ensureConsistentLocked kss)) = deleted kss"
  "keyspace (fst (ensureConsistentLocked kss)) = keyspace kss"
  "lastError (fst (ensureConsistentLocked kss)) = lastError kss"
  "kew_localCell (fst (ensureConsistentLocked kss)) = kew_localCell kss"
  by (simp_all add: ensureConsistentLocked_def split: option.splits)

text \<open>
  C8. Delivering the same \<^verbatim>\<open>SrvKeyspace\<close> snapshot to \<^verbatim>\<open>onSrvKeyspace\<close> a second time, with
  a nil error, leaves the state exactly as the first delivery left it and broadcasts no
  event (the callback returns true to keep watching).
\<close>

theorem onSrvKeyspace_replay_idempotent:
  "onSrvKeyspace (fst (onSrvKeyspace kss newKeyspace None)) newKeyspace None =
     (fst (onSrvKeyspace kss newKeyspace None), [], True)"
proof -
  have "lastKeyspace (fst (onSrvKeyspace kss newKeyspace None)) = newKeyspace"
  proof (cases "lastKeyspace kss = newKeyspace")
    case True
    then show ?thesis by (simp add: onSrvKeyspace_def)
  next
    case False
    then show ?thesis
      using ensureConsistentLocked_frame(1)
      by (simp add: onSrvKeyspace_def Let_def split_beta)
  qed
  then show ?thesis
    by (simp add: onSrvKeyspace_def [of "fst (onSrvKeyspace kss newKeyspace None)"])
qed

text \<open>
  The first delivery of the concrete snapshot changes the keyspace (it had none), the second
  changes nothing.
\<close>

theorem onSrvKeyspace_replay_idempotent_witness:
  "lastKeyspace exKss \<noteq> Some exSrvKeyspace
   \<and> lastKeyspace (fst (onSrvKeyspace exKss (Some exSrvKeyspace) None)) = Some exSrvKeyspace
   \<and> onSrvKeyspace (fst (onSrvKeyspace exKss (Some exSrvKeyspace) None)) (Some exSrvKeyspace) None =
     (fst (onSrvKeyspace exKss (Some exSrvKeyspace) None), [], True)"
  using onSrvKeyspace_replay_idempotent [of exKss "Some exSrvKeyspace"]
  by (simp add: onSrvKeyspace_def exKss_def newKeyspaceState_def ensureConsistentLocked_def
      SrvKeyspaceGetPartition_def exSrvKeyspace_def exPartition_def exShard_def)

section \<open>The move-tables detector\<close>

lemma getMoveTablesStatus_error:
  "snd (getMoveTablesStatus ts kss vs) = Some e \<Longrightarrow>
   fst (getMoveTablesStatus ts kss vs) = \<lparr>Typ = MoveTablesNone, State = MoveTablesUnknown\<rparr>"
  by (auto simp: getMoveTablesStatus_def Let_def split: if_splits sum.splits prod.splits)

text \<open>
  C3, as the code has it. When \<^verbatim>\<open>getMoveTablesStatus\<close> returns a non-nil error,
  \<^verbatim>\<open>onSrvVSchema\<close> replaces \<^verbatim>\<open>moveTablesState\<close> by the state returned with the error,
  which is \<^verbatim>\<open>(None, Unknown)\<close>; every other field of the keyspace, \<^verbatim>\<open>consistent\<close>
  included, keeps its value, no event is broadcast and the callback returns true.
\<close>

theorem onSrvVSchema_detector_error:
  assumes "snd (getMoveTablesStatus ts kss vs) = Some e"
  shows "onSrvVSchema ts kss (Some vs) err =
     (kss\<lparr>moveTablesState := Some \<lparr>Typ = MoveTablesNone, State = MoveTablesUnknown\<rparr>\<rparr>, [], True)"
  using getMoveTablesStatus_error [OF assms]
  by (cases "getMoveTablesStatus ts kss vs") (simp add: onSrvVSchema_def)

text \<open>
  With routing rules present and the topology server down the detector fails, and the
  keyspace that was in a regular MoveTables, still switching, is set to \<^verbatim>\<open>(None, Unknown)\<close>.
\<close>

theorem onSrvVSchema_detector_error_witness:
  "snd (getMoveTablesStatus exTopoDown exKssMoving exVSchema)
     = Some (OtherError ''topo server unavailable'')
   \<and> onSrvVSchema exTopoDown exKssMoving (Some exVSchema) None =
     (exKssMoving\<lparr>moveTablesState := Some \<lparr>Typ = MoveTablesNone, State = MoveTablesUnknown\<rparr>\<rparr>,
      [], True)"
proof -
  have h: "snd (getMoveTablesStatus exTopoDown exKssMoving exVSchema)
     = Some (OtherError ''topo server unavailable'')"
    by (simp add: getMoveTablesStatus_def exTopoDown_def exVSchema_def GetRules_def)
  from onSrvVSchema_detector_error [OF h] h show ?thesis by simp
qed

text \<open>The same run: the detector errs and \<^verbatim>\<open>moveTablesState\<close> is not what it was.\<close>

theorem onSrvVSchema_detector_error_counterexample:
  "snd (getMoveTablesStatus exTopoDown exKssMoving exVSchema) \<noteq> None
   \<and> moveTablesState (fst (onSrvVSchema exTopoDown exKssMoving (Some exVSchema) None))
       \<noteq> moveTablesState exKssMoving"
  by (simp add: onSrvVSchema_def getMoveTablesStatus_def exTopoDown_def exKssMoving_def
      exVSchema_def GetRules_def)

lemma scanTabletControls_fst:
  "fst (scanTabletControls name tcs (sw, one)) \<noteq> [] \<longleftrightarrow>
     sw \<noteq> [] \<or> (\<exists>tc \<in> set tcs. DeniedTables tc \<noteq> [])"
  by (induction tcs arbitrary: sw one) (auto split: list.splits)

lemma scanShardInfos_fst:
  "fst (scanShardInfos sis acc) \<noteq> [] \<longleftrightarrow>
     fst acc \<noteq> [] \<or> (\<exists>si \<in> set sis. \<exists>tc \<in> set (TabletControls si). DeniedTables tc \<noteq> [])"
proof (induction sis arbitrary: acc)
  case Nil
  then show ?case by simp
next
  case (Cons si sis)
  obtain sw one where acc: "acc = (sw, one)" by (cases acc)
  show ?case
    using Cons.IH [of "scanTabletControls (ShardName si) (TabletControls si) acc"]
    by (auto simp: acc scanTabletControls_fst)
qed

lemma scanTabletControls_snd:
  "scanTabletControls name tcs acc = acc
   \<or> (\<exists>tc \<in> set tcs. \<exists>rest.
         DeniedTables tc = snd (scanTabletControls name tcs acc) # rest)"
proof (induction tcs arbitrary: acc)
  case Nil
  then show ?case by simp
next
  case (Cons tc tcs)
  obtain sw one where acc: "acc = (sw, one)" by (cases acc)
  show ?case
  proof (cases "DeniedTables tc")
    case Nil
    then show ?thesis using Cons.IH [of acc] by (auto simp: acc)
  next
    case (Cons t ts)
    then show ?thesis using Cons.IH [of "(sw @ [name], t)"] by (auto simp: acc)
  qed
qed

lemma scanShardInfos_snd:
  "scanShardInfos sis acc = acc
   \<or> (\<exists>si \<in> set sis. \<exists>tc \<in> set (TabletControls si). \<exists>rest.
         DeniedTables tc = snd (scanShardInfos sis acc) # rest)"
proof (induction sis arbitrary: acc)
  case Nil
  then show ?case by simp
next
  case (Cons si sis)
  let ?acc' = "scanTabletControls (ShardName si) (TabletControls si) acc"
  from Cons.IH [of ?acc'] show ?case
  proof
    assume same: "scanShardInfos sis ?acc' = ?acc'"
    from scanTabletControls_snd [of "ShardName si" "TabletControls si" acc]
    show ?thesis using same by auto
  next
    assume "\<exists>si \<in> set sis. \<exists>tc \<in> set (TabletControls si). \<exists>rest.
         DeniedTables tc = snd (scanShardInfos sis ?acc') # rest"
    then show ?thesis by auto
  qed
qed

lemma oneDeniedTable_is_denied:
  assumes "fst (scanShardInfos sis ([], [])) \<noteq> []"
  shows "\<exists>si \<in> set sis. \<exists>tc \<in> set (TabletControls si). \<exists>rest.
           DeniedTables tc = snd (scanShardInfos sis ([], [])) # rest"
  using scanShardInfos_snd [of sis "([], [])"] assms by auto

text \<open>
  C9. \<^verbatim>\<open>getMoveTablesStatus\<close> fetches the shard records when the two rule lists are not
  both empty and the topology server answers. When a fetched shard has a tablet control
  with non-empty \<^verbatim>\<open>DeniedTables\<close> and there are no shard routing rules, it returns no
  error and the type \<^verbatim>\<open>Regular\<close>; the state is \<^verbatim>\<open>Switching\<close> unless it is upgraded to
  \<^verbatim>\<open>Switched\<close>, which happens iff the table-routing map has a non-empty rule for the
  remembered denied table whose first target is not \<^verbatim>\<open><keyspace>.<denied-table>\<close>. The
  remembered table is the first denied table of a tablet control of a fetched shard.
\<close>

theorem getMoveTablesStatus_regular:
  assumes rules: "GetRules (RoutingRules vs) \<noteq> []"
    and fetched: "fetchShards (topo (keyspace kss))
         (map (\<lambda>(shard, sstate). Shard (target sstate)) (shards kss)) = Inr shardInfos"
    and denied: "\<exists>si \<in> set shardInfos. \<exists>tc \<in> set (TabletControls si). DeniedTables tc \<noteq> []"
    and nosrr: "GetRules (ShardRoutingRules vs) = []"
    and one: "oneDeniedTable = snd (scanShardInfos shardInfos ([], []))"
  shows "snd (getMoveTablesStatus (Inr topo) kss vs) = None
    \<and> Typ (fst (getMoveTablesStatus (Inr topo) kss vs)) = MoveTablesRegular
    \<and> (State (fst (getMoveTablesStatus (Inr topo) kss vs)) = MoveTablesSwitching
        \<or> State (fst (getMoveTablesStatus (Inr topo) kss vs)) = MoveTablesSwitched)
    \<and> (State (fst (getMoveTablesStatus (Inr topo) kss vs)) = MoveTablesSwitched \<longleftrightarrow>
         (\<exists>rr r0 rest. GetRoutingRulesMap (RoutingRules vs) = Some rr
            \<and> rr oneDeniedTable = Some (r0 # rest)
            \<and> r0 \<noteq> keyspace kss @ ''.'' @ oneDeniedTable))
    \<and> (\<exists>si \<in> set shardInfos. \<exists>tc \<in> set (TabletControls si). \<exists>rest.
          DeniedTables tc = oneDeniedTable # rest)"
proof -
  have nonempty: "fst (scanShardInfos shardInfos ([], [])) \<noteq> []"
    using denied by (simp add: scanShardInfos_fst)
  have "snd (getMoveTablesStatus (Inr topo) kss vs) = None
    \<and> Typ (fst (getMoveTablesStatus (Inr topo) kss vs)) = MoveTablesRegular
    \<and> (State (fst (getMoveTablesStatus (Inr topo) kss vs)) = MoveTablesSwitching
        \<or> State (fst (getMoveTablesStatus (Inr topo) kss vs)) = MoveTablesSwitched)
    \<and> (State (fst (getMoveTablesStatus (Inr topo) kss vs)) = MoveTablesSwitched \<longleftrightarrow>
         (\<exists>rr r0 rest. GetRoutingRulesMap (RoutingRules vs) = Some rr
            \<and> rr oneDeniedTable = Some (r0 # rest)
            \<and> r0 \<noteq> keyspace kss @ ''.'' @ oneDeniedTable))"
    using nonempty rules fetched nosrr one
    by (auto simp: getMoveTablesStatus_def Let_def split: prod.splits option.splits list.splits)
  moreover have "\<exists>si \<in> set shardInfos. \<exists>tc \<in> set (TabletControls si). \<exists>rest.
          DeniedTables tc = oneDeniedTable # rest"
    using oneDeniedTable_is_denied [OF nonempty] by (simp add: one)
  ultimately show ?thesis by blast
qed

text \<open>
  Keyspace \<^verbatim>\<open>ks\<close> with the table \<^verbatim>\<open>t\<close> denied on its shard: the rule \<^verbatim>\<open>t -> otherks.t\<close>
  gives \<^verbatim>\<open>(Regular, Switched)\<close>, the rule \<^verbatim>\<open>t -> ks.t\<close> gives \<^verbatim>\<open>(Regular, Switching)\<close>.
\<close>

theorem getMoveTablesStatus_regular_witness:
  "getMoveTablesStatus (Inr exGetShard) exKss exVSchema =
     (\<lparr>Typ = MoveTablesRegular, State = MoveTablesSwitched\<rparr>, None)
   \<and> getMoveTablesStatus (Inr exGetShard) exKss
        (exVSchema\<lparr>RoutingRules := Some [\<lparr>FromTable = ''t'', ToTables = [''ks.t'']\<rparr>]\<rparr>) =
     (\<lparr>Typ = MoveTablesRegular, State = MoveTablesSwitching\<rparr>, None)"
proof -
  let ?sis = "[\<lparr>ShardName = ''-80'', TabletControls = [\<lparr>DeniedTables = [''t'']\<rparr>]\<rparr>]"
  let ?vs = "exVSchema\<lparr>RoutingRules := Some [\<lparr>FromTable = ''t'', ToTables = [''ks.t'']\<rparr>]\<rparr>"
  have f: "fetchShards (exGetShard (keyspace exKss))
         (map (\<lambda>(shard, sstate). Shard (target sstate)) (shards exKss)) = Inr ?sis"
    by (simp add: exKss_def exShard_def exTarget_def exGetShard_def)
  have d: "\<exists>si \<in> set ?sis. \<exists>tc \<in> set (TabletControls si). DeniedTables tc \<noteq> []"
    by simp
  have one: "''t'' = snd (scanShardInfos ?sis ([], []))" by simp
  have r1: "GetRules (RoutingRules exVSchema) \<noteq> []" by (simp add: exVSchema_def GetRules_def)
  have n1: "GetRules (ShardRoutingRules exVSchema) = []" by (simp add: exVSchema_def GetRules_def)
  have r2: "GetRules (RoutingRules ?vs) \<noteq> []" by (simp add: GetRules_def)
  have n2: "GetRules (ShardRoutingRules ?vs) = []" by (simp add: exVSchema_def GetRules_def)
  have k: "keyspace exKss = ''ks''" by (simp add: exKss_def newKeyspaceState_def)
  from getMoveTablesStatus_regular [of exVSchema exGetShard exKss ?sis "''t''", OF r1 f d n1 one]
    getMoveTablesStatus_regular [of ?vs exGetShard exKss ?sis "''t''", OF r2 f d n2 one]
  show ?thesis
    by (cases "getMoveTablesStatus (Inr exGetShard) exKss exVSchema";
        cases "getMoveTablesStatus (Inr exGetShard) exKss ?vs";
        cases "fst (getMoveTablesStatus (Inr exGetShard) exKss exVSchema)";
        cases "fst (getMoveTablesStatus (Inr exGetShard) exKss ?vs)")
      (auto simp: k GetRoutingRulesMap_def exVSchema_def)
qed

section \<open>Resharding detection: the overlap test\<close>

lemma ValidateShardName_child: "ValidateShardName ''-80'' = Inr (Some \<lparr>Start = [], End = [0x80]\<rparr>)"
  by (simp add: ValidateShardName_def hexDigit_def)

lemma ValidateShardName_full: "ValidateShardName ''-'' = Inr (Some \<lparr>Start = [], End = []\<rparr>)"
  by (simp add: ValidateShardName_def hexDigit_def)

lemma ValidateShardName_unsharded: "ValidateShardName ''0'' = Inr None"
  by (simp add: ValidateShardName_def hexDigit_def)

lemma overlapLoop_sound:
  "overlapLoop validate intersect cur ckr shs \<Longrightarrow>
   \<exists>n s skr. (n, s) \<in> set shs \<and> n \<noteq> cur \<and> serving s
      \<and> validate n = Inr (Some skr) \<and> intersect ckr skr"
proof (induction shs)
  case Nil
  then show ?case by simp
next
  case (Cons p shs)
  obtain n s where p: "p = (n, s)" by (cases p)
  show ?case
  proof (cases "\<not> serving s \<or> n = cur")
    case True
    with Cons p show ?thesis by auto
  next
    case False
    with Cons p show ?thesis
      by (auto split: sum.splits option.splits if_splits)
  qed
qed

lemma overlapLoop_complete:
  assumes "\<forall>n s. (n, s) \<in> set shs \<and> n \<noteq> cur \<and> serving s \<longrightarrow> (\<exists>skr. validate n = Inr (Some skr))"
    and "\<exists>n s skr. (n, s) \<in> set shs \<and> n \<noteq> cur \<and> serving s
      \<and> validate n = Inr (Some skr) \<and> intersect ckr skr"
  shows "overlapLoop validate intersect cur ckr shs"
  using assms
proof (induction shs)
  case Nil
  then show ?case by simp
next
  case (Cons p shs)
  obtain n s where p: "p = (n, s)" by (cases p)
  show ?case
  proof (cases "\<not> serving s \<or> n = cur")
    case True
    with Cons p show ?thesis by auto
  next
    case False
    then obtain skr where skr: "validate n = Inr (Some skr)"
      using Cons.prems(1) p by auto
    show ?thesis
    proof (cases "intersect ckr skr")
      case True
      with False skr p show ?thesis by simp
    next
      case no: False
      have "overlapLoop validate intersect cur ckr shs"
        using Cons.IH Cons.prems p skr no by auto
      with False skr p no show ?thesis by simp
    qed
  qed
qed

text \<open>
  C6, as the code has it. \<^verbatim>\<open>beingResharded\<close> returns true only if the keyspace is not
  deleted, not consistent and in no MoveTables other than \<^verbatim>\<open>None\<close>, the key range of
  \<^verbatim>\<open>currentShard\<close> parses, and some other shard of the map is serving with a key range
  that overlaps it; so it returns false when one of the first four fails. When the name of
  every other serving shard parses to a key range, the converse holds too: it returns true
  iff there is such an overlapping shard. (The loop returns false at the first other
  serving shard whose name does not parse, whatever follows it in the iteration.)
\<close>

theorem beingResharded_overlap:
  "(beingResharded validate intersect kss cur \<longrightarrow>
      \<not> deleted kss \<and> \<not> consistent kss
      \<and> (\<forall>m. moveTablesState kss = Some m \<longrightarrow> Typ m = MoveTablesNone)
      \<and> (\<exists>ckr. validate cur = Inr (Some ckr)
            \<and> (\<exists>n s skr. (n, s) \<in> set (shards kss) \<and> n \<noteq> cur \<and> serving s
                  \<and> validate n = Inr (Some skr) \<and> intersect ckr skr)))
   \<and> ((\<forall>n s. (n, s) \<in> set (shards kss) \<and> n \<noteq> cur \<and> serving s
              \<longrightarrow> (\<exists>skr. validate n = Inr (Some skr)))
        \<and> \<not> deleted kss \<and> \<not> consistent kss
        \<and> (\<forall>m. moveTablesState kss = Some m \<longrightarrow> Typ m = MoveTablesNone)
        \<and> (\<exists>ckr. validate cur = Inr (Some ckr)
              \<and> (\<exists>n s skr. (n, s) \<in> set (shards kss) \<and> n \<noteq> cur \<and> serving s
                    \<and> validate n = Inr (Some skr) \<and> intersect ckr skr))
        \<longrightarrow> beingResharded validate intersect kss cur)"
proof (intro conjI impI)
  assume b: "beingResharded validate intersect kss cur"
  then show "\<not> deleted kss" "\<not> consistent kss"
    "\<forall>m. moveTablesState kss = Some m \<longrightarrow> Typ m = MoveTablesNone"
    by (auto simp: beingResharded_def split: if_splits option.splits)
  from b obtain ckr where ckr: "validate cur = Inr (Some ckr)"
    and loop: "overlapLoop validate intersect cur ckr (shards kss)"
    by (auto simp: beingResharded_def split: if_splits option.splits sum.splits)
  from overlapLoop_sound [OF loop] ckr
  show "\<exists>ckr. validate cur = Inr (Some ckr)
            \<and> (\<exists>n s skr. (n, s) \<in> set (shards kss) \<and> n \<noteq> cur \<and> serving s
                  \<and> validate n = Inr (Some skr) \<and> intersect ckr skr)"
    by blast
next
  assume a: "(\<forall>n s. (n, s) \<in> set (shards kss) \<and> n \<noteq> cur \<and> serving s
              \<longrightarrow> (\<exists>skr. validate n = Inr (Some skr)))
        \<and> \<not> deleted kss \<and> \<not> consistent kss
        \<and> (\<forall>m. moveTablesState kss = Some m \<longrightarrow> Typ m = MoveTablesNone)
        \<and> (\<exists>ckr. validate cur = Inr (Some ckr)
              \<and> (\<exists>n s skr. (n, s) \<in> set (shards kss) \<and> n \<noteq> cur \<and> serving s
                    \<and> validate n = Inr (Some skr) \<and> intersect ckr skr))"
  then obtain ckr where ckr: "validate cur = Inr (Some ckr)"
    and ex: "\<exists>n s skr. (n, s) \<in> set (shards kss) \<and> n \<noteq> cur \<and> serving s
                    \<and> validate n = Inr (Some skr) \<and> intersect ckr skr"
    by blast
  from a have parse: "\<forall>n s. (n, s) \<in> set (shards kss) \<and> n \<noteq> cur \<and> serving s
              \<longrightarrow> (\<exists>skr. validate n = Inr (Some skr))" by blast
  have "overlapLoop validate intersect cur ckr (shards kss)"
    using overlapLoop_complete [where shs = "shards kss" and cur = cur and validate = validate
        and intersect = intersect and ckr = ckr] parse ex
    by blast
  with a ckr show "beingResharded validate intersect kss cur"
    by (auto simp: beingResharded_def split: option.splits)
qed

text \<open>
  The unsharded keyspace: the key range of \<^verbatim>\<open>-80\<close> parses, the other shard \<^verbatim>\<open>-\<close> is
  serving and overlaps it, and the answer is false, because the iteration meets the serving
  shard \<^verbatim>\<open>0\<close>, which has no key range, first.
\<close>

theorem beingResharded_overlap_counterexample:
  "\<not> deleted exKssUnsharded \<and> \<not> consistent exKssUnsharded
   \<and> moveTablesState exKssUnsharded = None
   \<and> ValidateShardName ''-80'' = Inr (Some \<lparr>Start = [], End = [0x80]\<rparr>)
   \<and> (''-'', exServing ''-'') \<in> set (shards exKssUnsharded)
   \<and> serving (exServing ''-'')
   \<and> ValidateShardName ''-'' = Inr (Some \<lparr>Start = [], End = []\<rparr>)
   \<and> KeyRangeIntersect \<lparr>Start = [], End = [0x80]\<rparr> \<lparr>Start = [], End = []\<rparr>
   \<and> \<not> beingResharded ValidateShardName KeyRangeIntersect exKssUnsharded ''-80''"
  by (simp add: exKssUnsharded_def newKeyspaceState_def exServing_def ValidateShardName_child ValidateShardName_full ValidateShardName_unsharded
      KeyRangeIntersect_def beingResharded_def)

text \<open>
  The keyspace being split: for \<^verbatim>\<open>-80\<close> the parent \<^verbatim>\<open>-\<close> is serving and overlaps, so the
  answer is true; once the keyspace is consistent it is false.
\<close>

theorem beingResharded_overlap_witness:
  "beingResharded ValidateShardName KeyRangeIntersect exKssSplit ''-80''
   \<and> \<not> beingResharded ValidateShardName KeyRangeIntersect (exKssSplit\<lparr>consistent := True\<rparr>) ''-80''"
proof -
  have p1: "\<forall>n s. (n, s) \<in> set (shards exKssSplit) \<and> n \<noteq> ''-80'' \<and> serving s
              \<longrightarrow> (\<exists>skr. ValidateShardName n = Inr (Some skr))"
    by (auto simp: exKssSplit_def ValidateShardName_full)
  have p2: "\<not> deleted exKssSplit \<and> \<not> consistent exKssSplit
        \<and> (\<forall>m. moveTablesState exKssSplit = Some m \<longrightarrow> Typ m = MoveTablesNone)"
    by (simp add: exKssSplit_def newKeyspaceState_def)
  have p3: "(''-'', exServing ''-'') \<in> set (shards exKssSplit) \<and> ''-'' \<noteq> ''-80''
      \<and> serving (exServing ''-'')
      \<and> ValidateShardName ''-'' = Inr (Some \<lparr>Start = [], End = []\<rparr>)
      \<and> KeyRangeIntersect \<lparr>Start = [], End = [0x80]\<rparr> \<lparr>Start = [], End = []\<rparr>"
    by (simp add: exKssSplit_def exServing_def ValidateShardName_full KeyRangeIntersect_def)
  have a: "(\<forall>n s. (n, s) \<in> set (shards exKssSplit) \<and> n \<noteq> ''-80'' \<and> serving s
              \<longrightarrow> (\<exists>skr. ValidateShardName n = Inr (Some skr)))
        \<and> \<not> deleted exKssSplit \<and> \<not> consistent exKssSplit
        \<and> (\<forall>m. moveTablesState exKssSplit = Some m \<longrightarrow> Typ m = MoveTablesNone)
        \<and> (\<exists>ckr. ValidateShardName ''-80'' = Inr (Some ckr)
              \<and> (\<exists>n s skr. (n, s) \<in> set (shards exKssSplit) \<and> n \<noteq> ''-80'' \<and> serving s
                    \<and> ValidateShardName n = Inr (Some skr) \<and> KeyRangeIntersect ckr skr))"
    using p1 p2 p3 ValidateShardName_child by blast
  from beingResharded_overlap [of ValidateShardName KeyRangeIntersect exKssSplit "''-80''"] a
  have "beingResharded ValidateShardName KeyRangeIntersect exKssSplit ''-80''" by blast
  moreover from beingResharded_overlap [of ValidateShardName KeyRangeIntersect "exKssSplit\<lparr>consistent := True\<rparr>" "''-80''"]
  have "\<not> beingResharded ValidateShardName KeyRangeIntersect (exKssSplit\<lparr>consistent := True\<rparr>) ''-80''"
    by auto
  ultimately show ?thesis by simp
qed

section \<open>Waiting reads, and looks keyspaces up\<close>

lemma getKeyspaceStatus_other:
  "k' \<noteq> k \<Longrightarrow> keyspaces (fst (getKeyspaceStatus kew k)) k' = keyspaces kew k'"
  by (simp add: getKeyspaceStatus_def Let_def split: option.splits)













text \<open>A named keyspace that is tracked, not deleted and inconsistent stays on the list.\<close>

lemma pollKeyspaces_stuck:
  assumes "k \<in> set ks" and "k \<noteq> []" and "keyspaces kew k = Some kss"
    and "\<not> deleted kss" and "\<not> consistent kss"
  shows "k \<in> set (fst (snd (pollKeyspaces kew ks)))"
  using assms
proof (induction ks arbitrary: kew)
  case Nil
  then show ?case by simp
next
  case (Cons k' ks)
  show ?case
  proof (cases "k' = k")
    case True
    with Cons.prems show ?thesis
      by (simp add: getKeyspaceStatus_tracked split_beta)
  next
    case False
    with Cons.prems have in_rest: "k \<in> set ks" by simp
    show ?thesis
    proof (cases "k' = []")
      case True
      with Cons.IH [OF in_rest Cons.prems(2-5)] show ?thesis by (simp add: split_beta)
    next
      case named: False
      have "keyspaces (fst (getKeyspaceStatus kew k')) k = Some kss"
        using False Cons.prems(3) by (simp add: getKeyspaceStatus_other)
      from Cons.IH [OF in_rest Cons.prems(2) this Cons.prems(4,5)] named
      show ?thesis by (auto simp: split_beta)
    qed
  qed
qed








section \<open>The consistent keyspace\<close>

lemma activeShards_Some:
  "activeShards shs refs acc = Some a \<Longrightarrow>
   set a = set acc \<union> ref_Name ` set refs
   \<and> (\<forall>r \<in> set refs. \<exists>st. map_of shs (ref_Name r) = Some st \<and> serving st)"
  by (induction refs arbitrary: acc) (auto split: option.splits if_splits)

lemma servingOutside_False:
  "\<not> servingOutside shs a \<Longrightarrow> (n, st) \<in> set shs \<Longrightarrow> serving st \<Longrightarrow> n \<in> set a"
  by (induction shs) (auto split: if_splits)

lemma map_of_filter_serving:
  "map_of shs n = Some st \<Longrightarrow> serving st \<Longrightarrow>
   map_of (filter (\<lambda>(shard, sstate). serving sstate) shs) n = Some st"
  by (induction shs) auto

lemma ensureConsistentLocked_cases:
  "fst (ensureConsistentLocked kss) = kss
   \<or> (\<not> consistent kss
       \<and> fst (ensureConsistentLocked kss) =
           kss\<lparr>consistent := True, moveTablesState := None,
               shards := filter (\<lambda>(shard, sstate). serving sstate) (shards kss)\<rparr>
       \<and> (\<exists>primary a. SrvKeyspaceGetPartition (lastKeyspace kss) PRIMARY = Some primary
             \<and> ShardTabletControls primary = []
             \<and> activeShards (shards kss) (ShardReferences primary) [] = Some a
             \<and> \<not> servingOutside (shards kss) a))"
  by (auto simp: ensureConsistentLocked_def split: option.splits)

lemma consistentView_ensure:
  assumes "consistent kss \<longrightarrow> consistentView kss"
  shows "consistent (fst (ensureConsistentLocked kss))
           \<longrightarrow> consistentView (fst (ensureConsistentLocked kss))"
proof -
  let ?f = "filter (\<lambda>(shard, sstate). serving sstate) (shards kss)"
  let ?new = "kss\<lparr>consistent := True, moveTablesState := None, shards := ?f\<rparr>"
  from ensureConsistentLocked_cases [of kss] show ?thesis
  proof
    assume "fst (ensureConsistentLocked kss) = kss"
    with assms show ?thesis by simp
  next
    assume new: "\<not> consistent kss
       \<and> fst (ensureConsistentLocked kss) = ?new
       \<and> (\<exists>primary a. SrvKeyspaceGetPartition (lastKeyspace kss) PRIMARY = Some primary
             \<and> ShardTabletControls primary = []
             \<and> activeShards (shards kss) (ShardReferences primary) [] = Some a
             \<and> \<not> servingOutside (shards kss) a)"
    then have eq: "fst (ensureConsistentLocked kss) = ?new" by (rule conjunct2 [THEN conjunct1])
    from new obtain primary a where
      p: "SrvKeyspaceGetPartition (lastKeyspace kss) PRIMARY = Some primary"
        "ShardTabletControls primary = []"
      and act: "activeShards (shards kss) (ShardReferences primary) [] = Some a"
      and out: "\<not> servingOutside (shards kss) a"
      by blast
    from activeShards_Some [OF act]
    have a: "set a = ref_Name ` set (ShardReferences primary)"
      and refs: "\<forall>r \<in> set (ShardReferences primary).
                  \<exists>st. map_of (shards kss) (ref_Name r) = Some st \<and> serving st"
      by simp_all
    have names: "ref_Name ` set (ShardReferences primary) =
            {s. \<exists>st. map_of ?f s = Some st \<and> serving st}"
    proof (intro set_eqI iffI)
      fix n
      assume "n \<in> ref_Name ` set (ShardReferences primary)"
      with refs obtain st where st: "map_of (shards kss) n = Some st" "serving st" by blast
      have "map_of ?f n = Some st" by (rule map_of_filter_serving [OF st])
      with st(2) show "n \<in> {s. \<exists>st. map_of ?f s = Some st \<and> serving st}" by blast
    next
      fix n
      assume "n \<in> {s. \<exists>st. map_of ?f s = Some st \<and> serving st}"
      then obtain st where st: "map_of ?f n = Some st" "serving st" by blast
      from st(1) have "(n, st) \<in> set ?f" by (rule map_of_SomeD)
      then have "(n, st) \<in> set (shards kss)" by simp
      from servingOutside_False [OF out this st(2)] a
      show "n \<in> ref_Name ` set (ShardReferences primary)" by simp
    qed
    have "consistentView ?new"
      unfolding consistentView_def
    proof (intro conjI exI [of _ primary])
      show "SrvKeyspaceGetPartition (lastKeyspace ?new) PRIMARY = Some primary"
        using p(1) by simp
      show "ShardTabletControls primary = []" by (rule p(2))
      show "ref_Name ` set (ShardReferences primary) =
            {s. \<exists>st. map_of (shards ?new) s = Some st \<and> serving st}"
      proof -
        have sh: "shards ?new = ?f" by simp
        show ?thesis unfolding sh by (rule names)
      qed
      show "case moveTablesState ?new of None \<Rightarrow> True | Some m \<Rightarrow> Typ m = MoveTablesNone"
        by simp
    qed
    then show ?thesis unfolding eq by blast
  qed
qed

lemma healthUpdate_quiet:
  "\<not> snd (healthUpdate th s) \<Longrightarrow> serving (fst (healthUpdate th s)) = serving s"
  by (auto simp: healthUpdate_def Let_def split: if_splits)

lemma consistentView_shards:
  assumes "consistentView kss"
    and "{s. \<exists>st. map_of shs s = Some st \<and> serving st}
           = {s. \<exists>st. map_of (shards kss) s = Some st \<and> serving st}"
  shows "consistentView (kss\<lparr>shards := shs, consistent := c\<rparr>)"
  using assms by (simp add: consistentView_def)

lemma serving_set_update:
  assumes "map_of shs n = Some s0" and "serving s1 = serving s0"
  shows "{s. \<exists>st. map_of (AList.update n s1 shs) s = Some st \<and> serving st}
           = {s. \<exists>st. map_of shs s = Some st \<and> serving st}"
  using assms by (auto simp: update_conv' split: if_splits)

lemma consistentView_onHealthCheck:
  assumes "consistent kss \<longrightarrow> consistentView kss"
  shows "consistent (fst (onHealthCheck kss th)) \<longrightarrow> consistentView (fst (onHealthCheck kss th))"
proof (cases "TabletType (Target th) \<noteq> PRIMARY")
  case True
  with assms show ?thesis by (simp add: onHealthCheck_def)
next
  case primary: False
  show ?thesis
  proof (cases "map_of (shards kss) (Shard (Target th))")
    case None
    show ?thesis
    proof (cases "Serving th")
      case False
      with None primary assms show ?thesis by (simp add: onHealthCheck_def)
    next
      case True
      then have "snd (healthUpdate th (newShardState (Target th)))"
        by (auto simp: healthUpdate_def newShardState_def Let_def)
      then have "onHealthCheck kss th =
          ensureConsistentLocked
            (kss\<lparr>shards := AList.update (Shard (Target th))
                    (fst (healthUpdate th (newShardState (Target th)))) (shards kss),
                 consistent := False\<rparr>)"
        using None primary True by (simp add: onHealthCheck_def split_beta)
      then show ?thesis using consistentView_ensure by simp
    qed
  next
    case (Some s0)
    let ?k1 = "kss\<lparr>shards := AList.update (Shard (Target th)) (fst (healthUpdate th s0)) (shards kss),
                 consistent := consistent kss \<and> \<not> snd (healthUpdate th s0)\<rparr>"
    have eq: "onHealthCheck kss th = ensureConsistentLocked ?k1"
      using Some primary by (simp add: onHealthCheck_def split_beta)
    have "consistent ?k1 \<longrightarrow> consistentView ?k1"
    proof
      assume c: "consistent ?k1"
      then have q: "\<not> snd (healthUpdate th s0)" and v: "consistentView kss"
        using assms by auto
      show "consistentView ?k1"
        by (rule consistentView_shards [OF v serving_set_update [OF Some healthUpdate_quiet [OF q]]])
    qed
    then show ?thesis unfolding eq by (rule consistentView_ensure)
  qed
qed

lemma SrvKeyspaceGetPartition_None [simp]: "SrvKeyspaceGetPartition None t = None"
  by (simp add: SrvKeyspaceGetPartition_def)

lemma consistentView_onSrvKeyspace:
  assumes "consistent kss \<longrightarrow> consistentView kss"
  shows "consistent (fst (onSrvKeyspace kss nk ne))
           \<longrightarrow> consistentView (fst (onSrvKeyspace kss nk ne))"
proof (cases ne)
  case (Some e)
  with assms show ?thesis by (auto simp: onSrvKeyspace_def consistentView_def)
next
  case None
  show ?thesis
  proof (cases "lastKeyspace kss = nk")
    case True
    with None assms show ?thesis by (simp add: onSrvKeyspace_def)
  next
    case False
    let ?same = "SrvKeyspaceGetPartition (lastKeyspace kss) PRIMARY = SrvKeyspaceGetPartition nk PRIMARY"
    let ?k1 = "(if ?same then kss else kss\<lparr>consistent := False\<rparr>)\<lparr>lastKeyspace := nk\<rparr>"
    have eq: "fst (onSrvKeyspace kss nk ne) = fst (ensureConsistentLocked ?k1)"
      using None False by (auto simp: onSrvKeyspace_def Let_def split_beta)
    have "consistent ?k1 \<longrightarrow> consistentView ?k1"
    proof
      assume c: "consistent ?k1"
      then have same: ?same and "consistent kss" by (auto split: if_splits)
      with assms have v: "consistentView kss" by simp
      show "consistentView ?k1"
        using v same by (simp add: consistentView_def)
    qed
    then show ?thesis unfolding eq by (rule consistentView_ensure)
  qed
qed

lemma consistentView_onSrvVSchema:
  assumes "consistent kss \<longrightarrow> consistentView kss"
  shows "consistent (fst (onSrvVSchema ts kss vs err))
           \<longrightarrow> consistentView (fst (onSrvVSchema ts kss vs err))"
proof (cases vs)
  case None
  with assms show ?thesis by (simp add: onSrvVSchema_def)
next
  case (Some v)
  obtain mt kerr where mt: "getMoveTablesStatus ts kss v = (mt, kerr)"
    by (cases "getMoveTablesStatus ts kss v")
  show ?thesis
  proof (cases "Typ mt = MoveTablesNone")
    case True
    with Some mt assms show ?thesis by (auto simp: onSrvVSchema_def consistentView_def)
  next
    case False
    let ?k1 = "kss\<lparr>moveTablesState := Some mt, consistent := False\<rparr>"
    have eq: "fst (onSrvVSchema ts kss vs err) = fst (ensureConsistentLocked ?k1)"
      using Some mt False by (simp add: onSrvVSchema_def split_beta Let_def)
    have "consistent ?k1 \<longrightarrow> consistentView ?k1" by simp
    then show ?thesis unfolding eq by (rule consistentView_ensure)
  qed
qed

lemma consistentView_kssStep:
  assumes "consistent kss \<longrightarrow> consistentView kss"
  shows "consistent (kssStep kss ev) \<longrightarrow> consistentView (kssStep kss ev)"
proof (cases ev)
  case (HealthCheck th)
  with consistentView_onHealthCheck [OF assms] show ?thesis by simp
next
  case (SrvKeyspaceUpdate nk ne)
  with consistentView_onSrvKeyspace [OF assms] show ?thesis by simp
next
  case (SrvVSchemaUpdate ts vs err)
  with consistentView_onSrvVSchema [OF assms] show ?thesis by simp
next
  case (MarkNotServing shard b)
  with assms show ?thesis
    by (auto simp: markShardLocked_def split: option.splits)
qed

lemma consistentView_kssRun:
  "consistent kss \<longrightarrow> consistentView kss \<Longrightarrow>
   \<forall>k \<in> set (kssRun kss evs). consistent k \<longrightarrow> consistentView k"
proof (induction evs arbitrary: kss)
  case Nil
  then show ?case by simp
next
  case (Cons ev evs)
  from Cons.IH [OF consistentView_kssStep [OF Cons.prems]] Cons.prems
  show ?case by simp
qed

text \<open>
  C2, as the code has it. In every state that a keyspace goes through, from
  \<^verbatim>\<open>newKeyspaceState\<close> on and under any sequence of health-check callbacks, topology
  callbacks, vschema callbacks and \<^verbatim>\<open>MarkShardNotServing\<close> calls: when \<^verbatim>\<open>consistent\<close>
  is true, \<^verbatim>\<open>lastKeyspace\<close> has a PRIMARY partition, the shard names of that partition
  are exactly the names \<open>s\<close> of the shard map with \<^verbatim>\<open>shards[s].serving == true\<close>, the
  partition carries no \<^verbatim>\<open>ShardTabletControls\<close>, and \<^verbatim>\<open>moveTablesState\<close> is nil or has
  the type \<^verbatim>\<open>None\<close>.
\<close>

theorem consistent_keyspace_invariant:
  "\<forall>k \<in> set (kssRun (newKeyspaceState cell ks) evs). consistent k \<longrightarrow>
     (\<exists>primary. SrvKeyspaceGetPartition (lastKeyspace k) PRIMARY = Some primary
        \<and> ShardTabletControls primary = []
        \<and> ref_Name ` set (ShardReferences primary) =
            {s. \<exists>st. map_of (shards k) s = Some st \<and> serving st})
     \<and> (case moveTablesState k of None \<Rightarrow> True | Some m \<Rightarrow> Typ m = MoveTablesNone)"
proof -
  have "consistent (newKeyspaceState cell ks) \<longrightarrow> consistentView (newKeyspaceState cell ks)"
    by (simp add: newKeyspaceState_def)
  from consistentView_kssRun [OF this, of evs] show ?thesis
    by (simp add: consistentView_def)
qed

lemma exRun_last:
  "last (kssRun (newKeyspaceState ''aa'' ''ks'') exEvents) =
     (newKeyspaceState ''aa'' ''ks'')\<lparr>lastKeyspace := Some exSrvKeyspace, consistent := True,
         shards := [(''-80'', exShard\<lparr>serving := True, waitForReparent := False\<rparr>)]\<rparr>"
  by (simp add: exEvents_def newKeyspaceState_def onSrvKeyspace_def ensureConsistentLocked_def
      SrvKeyspaceGetPartition_def exSrvKeyspace_def exPartition_def onHealthCheck_def
      exHealthA_def exTarget_def healthUpdate_def newShardState_def exShard_def word_sless_alt)

lemma exRunVSchema_last:
  "last (kssRun (newKeyspaceState ''aa'' ''ks'') exEventsVSchema) =
     (newKeyspaceState ''aa'' ''ks'')\<lparr>lastKeyspace := Some exSrvKeyspace, consistent := True,
         shards := [(''-80'', exShard\<lparr>serving := True, waitForReparent := False\<rparr>)],
         moveTablesState := Some \<lparr>Typ = MoveTablesNone, State = MoveTablesUnknown\<rparr>\<rparr>"
  by (simp add: exEventsVSchema_def exEvents_def newKeyspaceState_def onSrvKeyspace_def
      ensureConsistentLocked_def
      SrvKeyspaceGetPartition_def exSrvKeyspace_def exPartition_def onHealthCheck_def
      exHealthA_def exTarget_def healthUpdate_def newShardState_def exShard_def word_sless_alt
      onSrvVSchema_def getMoveTablesStatus_def exNoRules_def GetRules_def)

text \<open>
  The topology names \<^verbatim>\<open>-80\<close>, its primary reports serving, and the keyspace is consistent
  with the partition and the serving shards both \<^verbatim>\<open>{-80}\<close>.
\<close>

theorem consistent_keyspace_invariant_witness:
  "consistent (last (kssRun (newKeyspaceState ''aa'' ''ks'') exEvents))
   \<and> (\<exists>primary. SrvKeyspaceGetPartition
          (lastKeyspace (last (kssRun (newKeyspaceState ''aa'' ''ks'') exEvents))) PRIMARY
            = Some primary
        \<and> ShardTabletControls primary = []
        \<and> ref_Name ` set (ShardReferences primary) =
            {s. \<exists>st. map_of (shards (last (kssRun (newKeyspaceState ''aa'' ''ks'') exEvents))) s
                        = Some st \<and> serving st})
   \<and> map_of (shards (last (kssRun (newKeyspaceState ''aa'' ''ks'') exEvents))) ''-80''
       = Some (exShard\<lparr>serving := True, waitForReparent := False\<rparr>)"
proof -
  let ?k = "last (kssRun (newKeyspaceState ''aa'' ''ks'') exEvents)"
  have c: "consistent ?k" by (simp add: exRun_last)
  have m: "?k \<in> set (kssRun (newKeyspaceState ''aa'' ''ks'') exEvents)"
    by (rule last_in_set) (simp add: exEvents_def)
  have l: "map_of (shards ?k) ''-80'' = Some (exShard\<lparr>serving := True, waitForReparent := False\<rparr>)"
    by (simp add: exRun_last)
  from consistent_keyspace_invariant [of "''aa''" "''ks''" exEvents] m c l show ?thesis by blast
qed

text \<open>
  \<^verbatim>\<open>moveTablesState\<close> need not be nil: \<^verbatim>\<open>onSrvVSchema\<close> stores the detector's result, a
  non-nil \<^verbatim>\<open>(None, Unknown)\<close> for a vschema without rules, and leaves the keyspace
  consistent.
\<close>

theorem consistent_keyspace_invariant_counterexample:
  "consistent (last (kssRun (newKeyspaceState ''aa'' ''ks'') exEventsVSchema))
   \<and> moveTablesState (last (kssRun (newKeyspaceState ''aa'' ''ks'') exEventsVSchema))
       = Some \<lparr>Typ = MoveTablesNone, State = MoveTablesUnknown\<rparr>"
  by (simp add: exRunVSchema_last)

section \<open>One shard state under the events of its keyspace\<close>

text \<open>
  The keys of a Go map are distinct, and every event keeps them so. A shard state leaves
  the map only when \<^verbatim>\<open>ensureConsistentLocked\<close> evicts it as not serving; a later serving
  report for the same name allocates another \<^verbatim>\<open>shardState\<close>, with a zero
  \<^verbatim>\<open>externallyReparented\<close> and the latch clear. The two theorems below follow one shard
  state for as long as it stays in the map.
\<close>

lemma ensureConsistentLocked_shards:
  "shards (fst (ensureConsistentLocked kss)) = shards kss
   \<or> shards (fst (ensureConsistentLocked kss))
        = filter (\<lambda>(shard, sstate). serving sstate) (shards kss)"
  by (simp add: ensureConsistentLocked_def split: option.splits)

lemma distinct_ensureConsistentLocked:
  "distinct (map fst (shards kss)) \<Longrightarrow>
   distinct (map fst (shards (fst (ensureConsistentLocked kss))))"
  using ensureConsistentLocked_shards [of kss] by (auto simp: distinct_map_filter)

lemma lookup_after_filter:
  assumes "distinct (map fst shs)" and "map_of (filter P shs) n = Some s"
  shows "map_of shs n = Some s"
proof -
  from assms(2) have "(n, s) \<in> set (filter P shs)" by (rule map_of_SomeD)
  then have "(n, s) \<in> set shs" by simp
  with assms(1) show ?thesis by (rule map_of_is_SomeI)
qed

lemma lookup_after_ensureConsistentLocked:
  assumes "distinct (map fst (shards kss))"
    and "map_of (shards (fst (ensureConsistentLocked kss))) n = Some s"
  shows "map_of (shards kss) n = Some s"
proof -
  from ensureConsistentLocked_shards [of kss] show ?thesis
  proof
    assume "shards (fst (ensureConsistentLocked kss)) = shards kss"
    with assms(2) show ?thesis by simp
  next
    assume "shards (fst (ensureConsistentLocked kss))
        = filter (\<lambda>(shard, sstate). serving sstate) (shards kss)"
    with assms(2)
    have "map_of (filter (\<lambda>(shard, sstate). serving sstate) (shards kss)) n = Some s" by simp
    with assms(1) show ?thesis by (rule lookup_after_filter)
  qed
qed

lemma onHealthCheck_form:
  "fst (onHealthCheck kss th) = kss
   \<or> (TabletType (Target th) = PRIMARY
       \<and> (\<exists>s0 c. (map_of (shards kss) (Shard (Target th)) = Some s0
                    \<or> map_of (shards kss) (Shard (Target th)) = None
                       \<and> s0 = newShardState (Target th))
             \<and> fst (onHealthCheck kss th) =
                 fst (ensureConsistentLocked
                   (kss\<lparr>shards := AList.update (Shard (Target th)) (fst (healthUpdate th s0))
                                    (shards kss),
                        consistent := c\<rparr>))))"
  by (auto simp: onHealthCheck_def split_beta split: option.splits)

lemma onSrvKeyspace_form:
  "\<exists>k1. shards k1 = shards kss
     \<and> (fst (onSrvKeyspace kss nk ne) = k1
         \<or> fst (onSrvKeyspace kss nk ne) = fst (ensureConsistentLocked k1))"
proof (cases "ne = None \<and> lastKeyspace kss \<noteq> nk")
  case True
  let ?k1 = "(if (if lastKeyspace kss \<noteq> None
                   then SrvKeyspaceGetPartition (lastKeyspace kss) PRIMARY else None)
                \<noteq> (if nk \<noteq> None then SrvKeyspaceGetPartition nk PRIMARY else None)
              then kss\<lparr>consistent := False\<rparr> else kss)\<lparr>lastKeyspace := nk\<rparr>"
  have "fst (onSrvKeyspace kss nk ne) = fst (ensureConsistentLocked ?k1)"
    using True by (simp add: onSrvKeyspace_def Let_def split_beta)
  moreover have "shards ?k1 = shards kss" by simp
  ultimately show ?thesis by blast
next
  case False
  then have "shards (fst (onSrvKeyspace kss nk ne)) = shards kss"
    by (auto simp: onSrvKeyspace_def split: option.splits)
  then show ?thesis by blast
qed

lemma onSrvVSchema_form:
  "\<exists>k1. shards k1 = shards kss
     \<and> (fst (onSrvVSchema ts kss vs err) = k1
         \<or> fst (onSrvVSchema ts kss vs err) = fst (ensureConsistentLocked k1))"
proof (cases vs)
  case None
  then show ?thesis by (auto simp: onSrvVSchema_def)
next
  case (Some v)
  let ?mt = "fst (getMoveTablesStatus ts kss v)"
  show ?thesis
  proof (cases "Typ ?mt = MoveTablesNone")
    case True
    with Some have "shards (fst (onSrvVSchema ts kss vs err)) = shards kss"
      by (simp add: onSrvVSchema_def split_beta Let_def)
    then show ?thesis by blast
  next
    case False
    let ?k1 = "kss\<lparr>moveTablesState := Some ?mt, consistent := False\<rparr>"
    have "fst (onSrvVSchema ts kss vs err) = fst (ensureConsistentLocked ?k1)"
      using Some False by (simp add: onSrvVSchema_def split_beta Let_def)
    moreover have "shards ?k1 = shards kss" by simp
    ultimately show ?thesis by blast
  qed
qed

lemma distinct_kssStep:
  assumes "distinct (map fst (shards kss))"
  shows "distinct (map fst (shards (kssStep kss ev)))"
proof (cases ev)
  case (HealthCheck th)
  from onHealthCheck_form [of kss th] show ?thesis
  proof
    assume "fst (onHealthCheck kss th) = kss"
    with HealthCheck assms show ?thesis by simp
  next
    assume "TabletType (Target th) = PRIMARY
       \<and> (\<exists>s0 c. (map_of (shards kss) (Shard (Target th)) = Some s0
                    \<or> map_of (shards kss) (Shard (Target th)) = None
                       \<and> s0 = newShardState (Target th))
             \<and> fst (onHealthCheck kss th) =
                 fst (ensureConsistentLocked
                   (kss\<lparr>shards := AList.update (Shard (Target th)) (fst (healthUpdate th s0))
                                    (shards kss),
                        consistent := c\<rparr>)))"
    then obtain s0 c where eq: "fst (onHealthCheck kss th) =
                 fst (ensureConsistentLocked
                   (kss\<lparr>shards := AList.update (Shard (Target th)) (fst (healthUpdate th s0))
                                    (shards kss),
                        consistent := c\<rparr>))" by blast
    have "distinct (map fst (shards (kss\<lparr>shards := AList.update (Shard (Target th))
              (fst (healthUpdate th s0)) (shards kss), consistent := c\<rparr>)))"
      using assms by (simp add: distinct_update)
    from distinct_ensureConsistentLocked [OF this] eq HealthCheck show ?thesis by simp
  qed
next
  case (SrvKeyspaceUpdate nk ne)
  from onSrvKeyspace_form [of kss nk ne] obtain k1 where k1: "shards k1 = shards kss"
    "fst (onSrvKeyspace kss nk ne) = k1
       \<or> fst (onSrvKeyspace kss nk ne) = fst (ensureConsistentLocked k1)" by blast
  from k1(1) assms have "distinct (map fst (shards k1))" by simp
  with distinct_ensureConsistentLocked [of k1] k1(2) SrvKeyspaceUpdate show ?thesis by auto
next
  case (SrvVSchemaUpdate ts vs err)
  from onSrvVSchema_form [of kss ts vs err] obtain k1 where k1: "shards k1 = shards kss"
    "fst (onSrvVSchema ts kss vs err) = k1
       \<or> fst (onSrvVSchema ts kss vs err) = fst (ensureConsistentLocked k1)" by blast
  from k1(1) assms have "distinct (map fst (shards k1))" by simp
  with distinct_ensureConsistentLocked [of k1] k1(2) SrvVSchemaUpdate show ?thesis by auto
next
  case (MarkNotServing shard b)
  with assms show ?thesis
    by (auto simp: markShardLocked_def distinct_update split: option.splits)
qed

lemma kssStep_shard:
  assumes d: "distinct (map fst (shards kss))"
    and s: "map_of (shards kss) n = Some s"
    and s': "map_of (shards (kssStep kss ev)) n = Some s'"
  shows "s' = shardStep n ev s"
proof (cases ev)
  case (HealthCheck th)
  from onHealthCheck_form [of kss th] show ?thesis
  proof
    assume same: "fst (onHealthCheck kss th) = kss"
    then have "s' = s" using s s' HealthCheck by simp
    moreover have "shardStep n ev s = s"
    proof (cases "TabletType (Target th) = PRIMARY \<and> Shard (Target th) = n")
      case True
      then have "fst (onHealthCheck kss th) =
          fst (ensureConsistentLocked
                (kss\<lparr>shards := AList.update n (fst (healthUpdate th s)) (shards kss),
                     consistent := consistent kss \<and> \<not> snd (healthUpdate th s)\<rparr>))"
        using s by (simp add: onHealthCheck_def split_beta)
      with same have e: "kss = fst (ensureConsistentLocked
                (kss\<lparr>shards := AList.update n (fst (healthUpdate th s)) (shards kss),
                     consistent := consistent kss \<and> \<not> snd (healthUpdate th s)\<rparr>))" by simp
      have dd: "distinct (map fst (shards (kss\<lparr>shards := AList.update n (fst (healthUpdate th s))
          (shards kss), consistent := consistent kss \<and> \<not> snd (healthUpdate th s)\<rparr>)))"
        using d by (simp add: distinct_update)
      from s e have "map_of (shards (fst (ensureConsistentLocked
                (kss\<lparr>shards := AList.update n (fst (healthUpdate th s)) (shards kss),
                     consistent := consistent kss \<and> \<not> snd (healthUpdate th s)\<rparr>)))) n = Some s"
        by simp
      from lookup_after_ensureConsistentLocked [OF dd this]
      have "fst (healthUpdate th s) = s" by (simp add: update_conv')
      with True HealthCheck show ?thesis by simp
    next
      case False
      with HealthCheck show ?thesis by auto
    qed
    ultimately show ?thesis by simp
  next
    assume "TabletType (Target th) = PRIMARY
       \<and> (\<exists>s0 c. (map_of (shards kss) (Shard (Target th)) = Some s0
                    \<or> map_of (shards kss) (Shard (Target th)) = None
                       \<and> s0 = newShardState (Target th))
             \<and> fst (onHealthCheck kss th) =
                 fst (ensureConsistentLocked
                   (kss\<lparr>shards := AList.update (Shard (Target th)) (fst (healthUpdate th s0))
                                    (shards kss),
                        consistent := c\<rparr>)))"
    then obtain s0 c where prim: "TabletType (Target th) = PRIMARY"
      and s0: "map_of (shards kss) (Shard (Target th)) = Some s0
                    \<or> map_of (shards kss) (Shard (Target th)) = None
                       \<and> s0 = newShardState (Target th)"
      and eq: "fst (onHealthCheck kss th) =
                 fst (ensureConsistentLocked
                   (kss\<lparr>shards := AList.update (Shard (Target th)) (fst (healthUpdate th s0))
                                    (shards kss),
                        consistent := c\<rparr>))" by blast
    let ?k1 = "kss\<lparr>shards := AList.update (Shard (Target th)) (fst (healthUpdate th s0))
                                    (shards kss), consistent := c\<rparr>"
    have dd: "distinct (map fst (shards ?k1))" using d by (simp add: distinct_update)
    from s' HealthCheck eq have "map_of (shards (fst (ensureConsistentLocked ?k1))) n = Some s'"
      by simp
    from lookup_after_ensureConsistentLocked [OF dd this]
    have look: "map_of (AList.update (Shard (Target th)) (fst (healthUpdate th s0)) (shards kss)) n
        = Some s'" by simp
    show ?thesis
    proof (cases "Shard (Target th) = n")
      case True
      with s0 s have "s0 = s" by auto
      with look True prim HealthCheck show ?thesis by (simp add: update_conv')
    next
      case False
      with look s HealthCheck show ?thesis by (simp add: update_conv')
    qed
  qed
next
  case (SrvKeyspaceUpdate nk ne)
  from onSrvKeyspace_form [of kss nk ne] obtain k1 where k1: "shards k1 = shards kss"
    "fst (onSrvKeyspace kss nk ne) = k1
       \<or> fst (onSrvKeyspace kss nk ne) = fst (ensureConsistentLocked k1)" by blast
  from k1(1) d have dd: "distinct (map fst (shards k1))" by simp
  from k1(2) s' SrvKeyspaceUpdate
  have "map_of (shards k1) n = Some s'"
    using lookup_after_ensureConsistentLocked [OF dd, of n s'] by auto
  with k1(1) s SrvKeyspaceUpdate show ?thesis by simp
next
  case (SrvVSchemaUpdate ts vs err)
  from onSrvVSchema_form [of kss ts vs err] obtain k1 where k1: "shards k1 = shards kss"
    "fst (onSrvVSchema ts kss vs err) = k1
       \<or> fst (onSrvVSchema ts kss vs err) = fst (ensureConsistentLocked k1)" by blast
  from k1(1) d have dd: "distinct (map fst (shards k1))" by simp
  from k1(2) s' SrvVSchemaUpdate
  have "map_of (shards k1) n = Some s'"
    using lookup_after_ensureConsistentLocked [OF dd, of n s'] by auto
  with k1(1) s SrvVSchemaUpdate show ?thesis by simp
next
  case (MarkNotServing shard b)
  with s s' show ?thesis
    by (auto simp: markShardLocked_def update_conv' split: option.splits if_splits)
qed

lemma healthUpdate_externallyReparented:
  "externallyReparented (fst (healthUpdate th s)) =
     (if PrimaryTermStartTime th \<noteq> 0 \<and> externallyReparented s <s PrimaryTermStartTime th
      then PrimaryTermStartTime th else externallyReparented s)"
  by (simp add: healthUpdate_def Let_def)

lemma healthUpdate_serving:
  "serving (fst (healthUpdate th s)) =
     (if serving s = Serving th then serving s
      else if Serving th \<and> waitForReparent s
      then externallyReparented s <s PrimaryTermStartTime th
      else Serving th)"
  by (simp add: healthUpdate_def Let_def)

lemma healthUpdate_waitForReparent:
  "waitForReparent (fst (healthUpdate th s)) =
     (Serving th \<and> waitForReparent s
      \<and> \<not> (serving s \<noteq> Serving th \<and> externallyReparented s <s PrimaryTermStartTime th))"
  by (auto simp: healthUpdate_def Let_def)

lemma healthUpdate_stale:
  "Serving th \<Longrightarrow> waitForReparent s \<Longrightarrow> \<not> serving s \<Longrightarrow>
   \<not> externallyReparented s <s PrimaryTermStartTime th \<Longrightarrow> fst (healthUpdate th s) = s"
  by (simp add: healthUpdate_def Let_def)

lemma shardStep_externallyReparented:
  "externallyReparented (shardStep n ev s) = externallyReparented s
   \<or> (externallyReparented s <s externallyReparented (shardStep n ev s)
       \<and> (\<exists>th. ev = HealthCheck th \<and> TabletType (Target th) = PRIMARY \<and> Shard (Target th) = n
             \<and> PrimaryTermStartTime th \<noteq> 0
             \<and> PrimaryTermStartTime th = externallyReparented (shardStep n ev s)))"
  by (cases ev) (simp_all add: healthUpdate_externallyReparented markNotServing_def Let_def)

lemma shardStep_latch:
  "(waitForReparent s \<longrightarrow> \<not> serving s) \<Longrightarrow>
   (waitForReparent (shardStep n ev s) \<longrightarrow> \<not> serving (shardStep n ev s))"
  by (cases ev)
    (auto simp: healthUpdate_serving healthUpdate_waitForReparent markNotServing_def Let_def
      split: if_splits)

lemma shardStep_accept:
  "waitForReparent s \<Longrightarrow> \<not> serving s \<Longrightarrow> serving (shardStep n ev s) \<Longrightarrow>
   \<not> waitForReparent (shardStep n ev s)
   \<and> (\<exists>th. ev = HealthCheck th \<and> TabletType (Target th) = PRIMARY \<and> Shard (Target th) = n
         \<and> Serving th \<and> externallyReparented s <s PrimaryTermStartTime th)"
  by (cases ev)
    (auto simp: healthUpdate_serving healthUpdate_waitForReparent markNotServing_def Let_def
      split: if_splits)

lemma shardStep_stale:
  "waitForReparent s \<Longrightarrow> \<not> serving s \<Longrightarrow> ev = HealthCheck th \<Longrightarrow> Serving th \<Longrightarrow>
   PrimaryTermStartTime th \<le>s externallyReparented s \<Longrightarrow> shardStep n ev s = s"
  by (simp add: healthUpdate_stale signed.not_less)

lemma kssRun_head: "kss \<in> set (kssRun kss evs)"
  by (cases evs) simp_all

lemma kssRun_last_Cons: "last (kssRun kss (ev # evs)) = last (kssRun (kssStep kss ev) evs)"
  by (cases evs) simp_all

lemma kssRun_distinct:
  "distinct (map fst (shards kss)) \<Longrightarrow> distinct (map fst (shards (last (kssRun kss evs))))"
proof (induction evs arbitrary: kss)
  case Nil
  then show ?case by simp
next
  case (Cons ev evs)
  from Cons.IH [OF distinct_kssStep [OF Cons.prems]] show ?case
    by (simp only: kssRun_last_Cons)
qed

lemma kssRun_shard:
  assumes step: "\<And>ev s. P s \<Longrightarrow> P (shardStep n ev s)"
  shows "distinct (map fst (shards kss)) \<Longrightarrow>
     \<forall>k \<in> set (kssRun kss evs). map_of (shards k) n \<noteq> None \<Longrightarrow>
     map_of (shards kss) n = Some s0 \<Longrightarrow> P s0 \<Longrightarrow>
     map_of (shards (last (kssRun kss evs))) n = Some s1 \<Longrightarrow> P s1"
proof (induction evs arbitrary: kss s0)
  case Nil
  then show ?case by simp
next
  case (Cons ev evs)
  have "kssStep kss ev \<in> set (kssRun kss (ev # evs))"
    using kssRun_head [of "kssStep kss ev" evs] by simp
  with Cons.prems(2) obtain s' where s': "map_of (shards (kssStep kss ev)) n = Some s'"
    by blast
  from kssStep_shard [OF Cons.prems(1) Cons.prems(3) s'] have "s' = shardStep n ev s0" .
  with step [OF Cons.prems(4)] have P: "P s'" by simp
  have tracked: "\<forall>k \<in> set (kssRun (kssStep kss ev) evs). map_of (shards k) n \<noteq> None"
    using Cons.prems(2) by simp
  have last: "map_of (shards (last (kssRun (kssStep kss ev) evs))) n = Some s1"
    using Cons.prems(5) by (simp only: kssRun_last_Cons)
  from Cons.IH [OF distinct_kssStep [OF Cons.prems(1)] tracked s' P last] show ?case .
qed

text \<open>
  C7. Take any keyspace, any sequence of events of the keyspace (health checks,
  \<^verbatim>\<open>MarkShardNotServing\<close> calls and topology callbacks) during which the state of a shard
  stays in the map, and one more event. The shard's \<^verbatim>\<open>externallyReparented\<close> after the
  sequence is not below its value before, and the further event leaves it as it is or
  strictly increases it; it changes only when that event is a health report of a PRIMARY
  target of this shard with a non-zero \<^verbatim>\<open>PrimaryTermStartTime\<close> strictly greater than
  the stored value, which becomes the new value. The comparison is that of \<^verbatim>\<open>int64\<close>.
\<close>

theorem externallyReparented_monotonic:
  assumes "distinct (map fst (shards kss))"
    and "\<forall>k \<in> set (kssRun kss evs). map_of (shards k) shard \<noteq> None"
    and "map_of (shards kss) shard = Some s0"
    and "map_of (shards (last (kssRun kss evs))) shard = Some s1"
    and "map_of (shards (kssStep (last (kssRun kss evs)) ev)) shard = Some s2"
  shows "externallyReparented s0 \<le>s externallyReparented s1
    \<and> externallyReparented s1 \<le>s externallyReparented s2
    \<and> (externallyReparented s2 \<noteq> externallyReparented s1 \<longrightarrow>
          externallyReparented s1 <s externallyReparented s2
          \<and> (\<exists>th. ev = HealthCheck th \<and> TabletType (Target th) = PRIMARY
                \<and> Shard (Target th) = shard \<and> PrimaryTermStartTime th \<noteq> 0
                \<and> PrimaryTermStartTime th = externallyReparented s2))"
proof -
  have mono: "\<And>ev (s :: shardState). externallyReparented s0 \<le>s externallyReparented s \<Longrightarrow>
      externallyReparented s0 \<le>s externallyReparented (shardStep shard ev s)"
  proof -
    fix ev and s :: shardState
    assume a: "externallyReparented s0 \<le>s externallyReparented s"
    from shardStep_externallyReparented [of shard ev s]
    have "externallyReparented s \<le>s externallyReparented (shardStep shard ev s)"
      by (auto simp: signed.less_imp_le)
    with a show "externallyReparented s0 \<le>s externallyReparented (shardStep shard ev s)"
      by (rule signed.order_trans)
  qed
  have first: "externallyReparented s0 \<le>s externallyReparented s1"
    by (rule kssRun_shard [where P = "\<lambda>s. externallyReparented s0 \<le>s externallyReparented s"
          and n = shard, OF mono assms(1) assms(2) assms(3) signed.order_refl assms(4)])
  have s2: "s2 = shardStep shard ev s1"
    by (rule kssStep_shard [OF kssRun_distinct [OF assms(1)] assms(4) assms(5)])
  from shardStep_externallyReparented [of shard ev s1] s2 first show ?thesis
    by (auto simp: signed.less_imp_le)
qed

lemma exStepStale: "kssStep exKss (HealthCheck exHealthA) = exKss"
  by (simp add: exKss_def newKeyspaceState_def onHealthCheck_def ensureConsistentLocked_def
      SrvKeyspaceGetPartition_def exHealthA_def exTarget_def healthUpdate_def exShard_def
      word_sless_alt)

lemma exStepNew:
  "kssStep exKss (HealthCheck exHealthB) = exKss\<lparr>shards := [(''-80'', exShardNew)]\<rparr>"
  by (simp add: exKss_def newKeyspaceState_def onHealthCheck_def ensureConsistentLocked_def
      SrvKeyspaceGetPartition_def exHealthB_def exTarget_def healthUpdate_def exShard_def
      exShardNew_def word_sless_alt)

text \<open>
  Shard \<^verbatim>\<open>-80\<close> has the term start 100: the stale report of tablet A (term start 100)
  leaves it, the report of tablet B raises it to 150.
\<close>

theorem externallyReparented_monotonic_witness:
  "map_of (shards exKss) ''-80'' = Some exShard
   \<and> map_of (shards (last (kssRun exKss [HealthCheck exHealthA]))) ''-80'' = Some exShard
   \<and> map_of (shards (kssStep (last (kssRun exKss [HealthCheck exHealthA])) (HealthCheck exHealthB)))
        ''-80'' = Some exShardNew
   \<and> externallyReparented exShard \<noteq> externallyReparented exShardNew
   \<and> externallyReparented exShard <s externallyReparented exShardNew"
proof -
  have d: "distinct (map fst (shards exKss))" by (simp add: exKss_def)
  have t: "\<forall>k \<in> set (kssRun exKss [HealthCheck exHealthA]). map_of (shards k) ''-80'' \<noteq> None"
    by (simp add: exStepStale del: kssStep.simps) (simp add: exKss_def)
  have s0: "map_of (shards exKss) ''-80'' = Some exShard" by (simp add: exKss_def)
  have s1: "map_of (shards (last (kssRun exKss [HealthCheck exHealthA]))) ''-80'' = Some exShard"
    by (simp add: exStepStale del: kssStep.simps) (simp add: exKss_def)
  have s2: "map_of (shards (kssStep (last (kssRun exKss [HealthCheck exHealthA]))
      (HealthCheck exHealthB))) ''-80'' = Some exShardNew"
    by (simp add: exStepStale exStepNew del: kssStep.simps)
  have ne: "externallyReparented exShard \<noteq> externallyReparented exShardNew"
    by (simp add: exShard_def exShardNew_def)
  from externallyReparented_monotonic [OF d t s0 s1 s2] ne s0 s1 s2 show ?thesis by simp
qed

text \<open>
  C4. With the same sequence and further event: if at the start the shard is not serving
  whenever its latch \<^verbatim>\<open>waitForReparent\<close> is set (as \<^verbatim>\<open>MarkShardNotServing\<close> leaves it),
  then after the sequence it is still not serving while the latch is set. From a state
  with the latch set and \<^verbatim>\<open>serving\<close> false, the further event makes the shard serving
  only if it is a serving health report of a PRIMARY target of this shard whose
  \<^verbatim>\<open>PrimaryTermStartTime\<close> is strictly greater than the stored \<^verbatim>\<open>externallyReparented\<close>,
  and then the latch is cleared; a serving report with a term start less than or equal to
  the stored value leaves the shard state as it is, \<^verbatim>\<open>serving\<close> false and the latch set.
\<close>

theorem waitForReparent_latch:
  assumes "distinct (map fst (shards kss))"
    and "\<forall>k \<in> set (kssRun kss evs). map_of (shards k) shard \<noteq> None"
    and "map_of (shards kss) shard = Some s0"
    and "map_of (shards (last (kssRun kss evs))) shard = Some s1"
    and "map_of (shards (kssStep (last (kssRun kss evs)) ev)) shard = Some s2"
  shows "((waitForReparent s0 \<longrightarrow> \<not> serving s0) \<longrightarrow> (waitForReparent s1 \<longrightarrow> \<not> serving s1))
    \<and> (waitForReparent s1 \<and> \<not> serving s1 \<and> serving s2 \<longrightarrow>
          \<not> waitForReparent s2
          \<and> (\<exists>th. ev = HealthCheck th \<and> TabletType (Target th) = PRIMARY
                \<and> Shard (Target th) = shard \<and> Serving th
                \<and> externallyReparented s1 <s PrimaryTermStartTime th))
    \<and> (waitForReparent s1 \<and> \<not> serving s1
        \<and> (\<exists>th. ev = HealthCheck th \<and> Serving th
              \<and> PrimaryTermStartTime th \<le>s externallyReparented s1) \<longrightarrow>
          s2 = s1)"
proof -
  have s2: "s2 = shardStep shard ev s1"
    by (rule kssStep_shard [OF kssRun_distinct [OF assms(1)] assms(4) assms(5)])
  have inv: "(waitForReparent s0 \<longrightarrow> \<not> serving s0) \<longrightarrow> (waitForReparent s1 \<longrightarrow> \<not> serving s1)"
  proof
    assume a: "waitForReparent s0 \<longrightarrow> \<not> serving s0"
    show "waitForReparent s1 \<longrightarrow> \<not> serving s1"
      by (rule kssRun_shard [where P = "\<lambda>s. waitForReparent s \<longrightarrow> \<not> serving s"
            and n = shard, OF shardStep_latch assms(1) assms(2) assms(3) a assms(4)])
  qed
  have accept: "waitForReparent s1 \<and> \<not> serving s1 \<and> serving s2 \<longrightarrow>
          \<not> waitForReparent s2
          \<and> (\<exists>th. ev = HealthCheck th \<and> TabletType (Target th) = PRIMARY
                \<and> Shard (Target th) = shard \<and> Serving th
                \<and> externallyReparented s1 <s PrimaryTermStartTime th)"
    using shardStep_accept [of s1 shard ev] s2 by blast
  have stale: "waitForReparent s1 \<and> \<not> serving s1
        \<and> (\<exists>th. ev = HealthCheck th \<and> Serving th
              \<and> PrimaryTermStartTime th \<le>s externallyReparented s1) \<longrightarrow>
          s2 = s1"
    using shardStep_stale [of s1 ev _ shard] s2 by blast
  from inv accept stale show ?thesis by blast
qed

text \<open>
  Shard \<^verbatim>\<open>-80\<close>, latched and not serving with the term start 100: the serving report of
  tablet A with the term start 100 changes nothing, the report of tablet B with 150 makes
  it serving and clears the latch.
\<close>

theorem waitForReparent_latch_witness:
  "waitForReparent exShard \<and> \<not> serving exShard
   \<and> PrimaryTermStartTime exHealthA \<le>s externallyReparented exShard
   \<and> map_of (shards (kssStep exKss (HealthCheck exHealthA))) ''-80'' = Some exShard
   \<and> map_of (shards (kssStep (last (kssRun exKss [HealthCheck exHealthA])) (HealthCheck exHealthB)))
        ''-80'' = Some exShardNew
   \<and> serving exShardNew \<and> \<not> waitForReparent exShardNew
   \<and> externallyReparented exShard <s PrimaryTermStartTime exHealthB"
proof -
  have d: "distinct (map fst (shards exKss))" by (simp add: exKss_def)
  have t: "\<forall>k \<in> set (kssRun exKss [HealthCheck exHealthA]). map_of (shards k) ''-80'' \<noteq> None"
    by (simp add: exStepStale del: kssStep.simps) (simp add: exKss_def)
  have s0: "map_of (shards exKss) ''-80'' = Some exShard" by (simp add: exKss_def)
  have s1: "map_of (shards (last (kssRun exKss [HealthCheck exHealthA]))) ''-80'' = Some exShard"
    by (simp add: exStepStale del: kssStep.simps) (simp add: exKss_def)
  have s2: "map_of (shards (kssStep (last (kssRun exKss [HealthCheck exHealthA]))
      (HealthCheck exHealthB))) ''-80'' = Some exShardNew"
    by (simp add: exStepStale exStepNew del: kssStep.simps)
  have st: "map_of (shards (kssStep exKss (HealthCheck exHealthA))) ''-80'' = Some exShard"
    by (simp add: exStepStale del: kssStep.simps) (simp add: exKss_def)
  have w: "waitForReparent exShard \<and> \<not> serving exShard" by (simp add: exShard_def)
  have sv: "serving exShardNew" by (simp add: exShardNew_def)
  have le: "PrimaryTermStartTime exHealthA \<le>s externallyReparented exShard"
    by (simp add: exHealthA_def exShard_def word_sle_eq)
  from waitForReparent_latch [OF d t s0 s1 s2] w sv
  have "\<not> waitForReparent exShardNew
      \<and> (\<exists>th. HealthCheck exHealthB = HealthCheck th \<and> TabletType (Target th) = PRIMARY
            \<and> Shard (Target th) = ''-80'' \<and> Serving th
            \<and> externallyReparented exShard <s PrimaryTermStartTime th)"
    by blast
  then have acc: "\<not> waitForReparent exShardNew
      \<and> externallyReparented exShard <s PrimaryTermStartTime exHealthB" by auto
  from w le st s2 sv acc show ?thesis by simp
qed

end
